theory Spec2Isabelle
  imports Complex_Main "HOL-Library.Sublist"
begin

section \<open>JavaScript strings\<close>

text \<open>
  A JavaScript string is a sequence of UTF-16 code units. The regular expressions of the
  source mention code units beyond Latin-1 (the bullet U+2022, the en dash U+2013, the
  zero-width space U+200B and the Unicode members of the class \<^verbatim>\<open>\s\<close>), so a string is
  modelled as the list of its code units, each a natural number.
\<close>

type_synonym jsstring = "nat list"

definition js :: "string \<Rightarrow> jsstring" where
  "js s = map of_char s"

text \<open>The class \<^verbatim>\<open>\s\<close>; \<^verbatim>\<open>String.prototype.trim\<close> removes the same code units.\<close>

definition isWs :: "nat \<Rightarrow> bool" where
  "isWs c \<longleftrightarrow>
     c = 9 \<or> c = 10 \<or> c = 11 \<or> c = 12 \<or> c = 13 \<or> c = 32 \<or> c = 160 \<or> c = 5760 \<or>
     (8192 \<le> c \<and> c \<le> 8202) \<or> c = 8232 \<or> c = 8233 \<or> c = 8239 \<or> c = 8287 \<or>
     c = 12288 \<or> c = 65279"

definition trim :: "jsstring \<Rightarrow> jsstring" where
  "trim s = rev (dropWhile isWs (rev (dropWhile isWs s)))"

text \<open>
  \<^verbatim>\<open>s.replace(/\s+/g, ' ')\<close>: every maximal run of white space becomes one space. The
  flag says whether the previous code unit belonged to a run already replaced.
\<close>

fun collapseFrom :: "bool \<Rightarrow> jsstring \<Rightarrow> jsstring" where
  "collapseFrom inRun [] = []"
| "collapseFrom inRun (c # cs) =
     (if isWs c then (if inRun then collapseFrom True cs else 32 # collapseFrom True cs)
      else c # collapseFrom False cs)"

definition collapseWs :: "jsstring \<Rightarrow> jsstring" where
  "collapseWs s = collapseFrom False s"

text \<open>\<^verbatim>\<open>s.includes(t)\<close> and \<^verbatim>\<open>s.startsWith(t)\<close>.\<close>

fun includesStr :: "jsstring \<Rightarrow> jsstring \<Rightarrow> bool" where
  "includesStr [] t = (t = [])"
| "includesStr (c # cs) t = (prefix t (c # cs) \<or> includesStr cs t)"

definition startsWith :: "jsstring \<Rightarrow> jsstring \<Rightarrow> bool" where
  "startsWith s t = prefix t s"

text \<open>\<^verbatim>\<open>parts.join(' ')\<close>.\<close>

fun joinSp :: "jsstring list \<Rightarrow> jsstring" where
  "joinSp [] = []"
| "joinSp [x] = x"
| "joinSp (x # y # ys) = x @ 32 # joinSp (y # ys)"

text \<open>
  Splitting at the code units that satisfy \<open>sep\<close> and dropping the empty pieces:
  \<^verbatim>\<open>s.split(/\s+/).filter(Boolean)\<close> with \<open>sep = isWs\<close>, and
  \<^verbatim>\<open>s.split(' ').filter(Boolean)\<close> with \<open>sep\<close> the test for a space. The first argument
  is the piece being read.
\<close>

fun tokensFrom :: "(nat \<Rightarrow> bool) \<Rightarrow> jsstring \<Rightarrow> jsstring \<Rightarrow> jsstring list" where
  "tokensFrom sep cur [] = (if cur = [] then [] else [cur])"
| "tokensFrom sep cur (c # cs) =
     (if sep c then (if cur = [] then tokensFrom sep [] cs else cur # tokensFrom sep [] cs)
      else tokensFrom sep (cur @ [c]) cs)"

definition tokensBy :: "(nat \<Rightarrow> bool) \<Rightarrow> jsstring \<Rightarrow> jsstring list" where
  "tokensBy sep s = tokensFrom sep [] s"

text \<open>
  \<^verbatim>\<open>s.toLowerCase().replace(/[^a-z0-9\s]/g, ' ')\<close>, one code unit at a time. Lower-casing
  maps the ASCII capitals to their small letters and leaves small letters, digits and
  white space alone; of all other code units only the Kelvin sign U+212A (lower case
  \<^verbatim>\<open>k\<close>) and the dotted capital I U+0130 (lower case \<^verbatim>\<open>i\<close> followed by the combining dot
  U+0307) produce a code unit that the replacement keeps. Everything else becomes a space.
\<close>

definition lowerKeyChar :: "nat \<Rightarrow> jsstring" where
  "lowerKeyChar c =
     (if 65 \<le> c \<and> c \<le> 90 then [c + 32]
      else if (97 \<le> c \<and> c \<le> 122) \<or> (48 \<le> c \<and> c \<le> 57) \<or> isWs c then [c]
      else if c = 8490 then [107]
      else if c = 304 then [105, 32]
      else [32])"

definition lowerKeyText :: "jsstring \<Rightarrow> jsstring" where
  "lowerKeyText s = concat (map lowerKeyChar s)"

text \<open>
  Matching under the flag \<^verbatim>\<open>i\<close> without the flag \<^verbatim>\<open>u\<close>: a code unit outside ASCII is
  never identified with an ASCII one, so a small ASCII letter of a pattern matches
  itself and its capital only.
\<close>

definition lowerAscii :: "nat \<Rightarrow> nat" where
  "lowerAscii c = (if 65 \<le> c \<and> c \<le> 90 then c + 32 else c)"

section \<open>Constants of the service worker\<close>

definition MAX_SECTIONS :: nat where
  "MAX_SECTIONS = 30"

definition MAX_BULLETS_PER_SECTION :: nat where
  "MAX_BULLETS_PER_SECTION = 80"

definition MIN_LLM_INTERVAL_MS :: int where
  "MIN_LLM_INTERVAL_MS = 5000"

definition STOPWORDS :: "jsstring list" where
  "STOPWORDS = map js
     [''a'', ''an'', ''and'', ''are'', ''as'', ''at'', ''be'', ''by'', ''for'', ''from'', ''in'',
      ''into'', ''is'', ''it'', ''its'', ''of'', ''on'', ''or'', ''that'', ''the'', ''their'',
      ''this'', ''to'', ''was'', ''were'', ''with'', ''we'', ''you'', ''your'']"

text \<open>
  \<^verbatim>\<open>BANNED_NOTE_CONTENT_RE.test(s)\<close>. The optional plural \<^verbatim>\<open>s?\<close> of the pattern does
  not change whether some position matches.
\<close>

definition BANNED_PHRASES :: "jsstring list" where
  "BANNED_PHRASES = map js
     [''exam tip'', ''study tip'', ''helpful hint'', ''key takeaway'', ''test strategy'',
      ''quiz strategy'']"

definition bannedNoteContent :: "jsstring \<Rightarrow> bool" where
  "bannedNoteContent s = list_ex (includesStr (map lowerAscii s)) BANNED_PHRASES"

section \<open>JavaScript values and the notes document\<close>

text \<open>
  The values that reach the service worker through \<^verbatim>\<open>JSON.parse\<close>, extension storage
  and runtime messages. An object is the list of its own properties, looked up from the
  front. The functions below test the type of a number and never read its value.
\<close>

datatype json =
    JUndefined
  | JNull
  | JBool bool
  | JNum rat
  | JStr jsstring
  | JArr "json list"
  | JObj "(jsstring \<times> json) list"

fun truthy :: "json \<Rightarrow> bool" where
  "truthy JUndefined = False"
| "truthy JNull = False"
| "truthy (JBool b) = b"
| "truthy (JNum n) = (n \<noteq> 0)"
| "truthy (JStr s) = (s \<noteq> [])"
| "truthy (JArr xs) = True"
| "truthy (JObj kvs) = True"

text \<open>
  \<^verbatim>\<open>v.name\<close> for the property names of this program, none of which is a built-in
  property of a string, a number, a boolean or an array.
\<close>

fun getProp :: "json \<Rightarrow> string \<Rightarrow> json" where
  "getProp (JObj kvs) name = (case map_of kvs (js name) of Some v \<Rightarrow> v | None \<Rightarrow> JUndefined)"
| "getProp v name = JUndefined"

text \<open>\<^verbatim>\<open>v && v.name\<close>.\<close>

definition andProp :: "json \<Rightarrow> string \<Rightarrow> json" where
  "andProp v name = (if truthy v then getProp v name else v)"

record note_section =
  heading :: jsstring
  bullets :: "jsstring list"

record notes_state =
  title :: "jsstring option"
  sections :: "note_section list"
  lastUpdatedAt :: "jsstring option"
  lastChunkId :: "jsstring option"

definition defaultNotesState :: notes_state where
  "defaultNotesState = \<lparr>title = None, sections = [], lastUpdatedAt = None, lastChunkId = None\<rparr>"

text \<open>A notes document as the JavaScript object that is stored, sent and read back.\<close>

definition optJson :: "jsstring option \<Rightarrow> json" where
  "optJson v = (case v of None \<Rightarrow> JNull | Some s \<Rightarrow> JStr s)"

definition sectionJson :: "note_section \<Rightarrow> json" where
  "sectionJson s = JObj [(js ''heading'', JStr (heading s)), (js ''bullets'', JArr (map JStr (bullets s)))]"

definition notesJson :: "notes_state \<Rightarrow> json" where
  "notesJson n = JObj
     [(js ''title'', optJson (title n)),
      (js ''sections'', JArr (map sectionJson (sections n))),
      (js ''lastUpdatedAt'', optJson (lastUpdatedAt n)),
      (js ''lastChunkId'', optJson (lastChunkId n))]"

section \<open>Sanitizing headings and bullets\<close>

definition isHeadingTail :: "nat \<Rightarrow> bool" where
  "isHeadingTail c \<longleftrightarrow> c = 58 \<or> c = 45 \<or> c = 8211 \<or> isWs c"

text \<open>\<^verbatim>\<open>s.replace(/[:\-\u2013\s]+$/, '')\<close>.\<close>

definition stripHeadingTail :: "jsstring \<Rightarrow> jsstring" where
  "stripHeadingTail s = rev (dropWhile isHeadingTail (rev s))"

definition sanitizeHeading :: "json \<Rightarrow> jsstring" where
  "sanitizeHeading h =
     (case h of
        JStr s \<Rightarrow>
          (let clean = trim (stripHeadingTail (collapseWs s))
           in if clean = [] \<or> length clean < 3 then [] else clean)
      | _ \<Rightarrow> [])"

definition isBulletGlyph :: "nat \<Rightarrow> bool" where
  "isBulletGlyph c \<longleftrightarrow> c = 45 \<or> c = 42 \<or> c = 8226 \<or> (48 \<le> c \<and> c \<le> 57) \<or> c = 46 \<or> c = 41"

text \<open>
  \<^verbatim>\<open>s.replace(/^\s*[-*\u2022\d.)]+\s*/, '')\<close>: the pattern matches at the start only, and
  only when a glyph follows the leading white space; one run of glyphs is removed.
\<close>

definition stripBulletLead :: "jsstring \<Rightarrow> jsstring" where
  "stripBulletLead s =
     (case dropWhile isWs s of
        [] \<Rightarrow> s
      | c # cs \<Rightarrow>
          if isBulletGlyph c then dropWhile isWs (dropWhile isBulletGlyph cs) else s)"

definition sanitizeBullet :: "json \<Rightarrow> jsstring" where
  "sanitizeBullet bullet =
     (case bullet of
        JStr s \<Rightarrow>
          (let clean = trim (stripBulletLead (trim (collapseWs s)))
           in if clean = [] then []
              else if bannedNoteContent clean then []
              else if length clean < 8 then []
              else clean)
      | _ \<Rightarrow> [])"

section \<open>Normalizing a notes document\<close>

text \<open>\<^verbatim>\<open>typeof v === 'string' && v.trim()\<close>, giving the trimmed string when it holds.\<close>

definition nonBlank :: "json \<Rightarrow> jsstring option" where
  "nonBlank v = (case v of JStr s \<Rightarrow> (if trim s \<noteq> [] then Some (trim s) else None) | _ \<Rightarrow> None)"

definition normalizeSection :: "json \<Rightarrow> note_section list" where
  "normalizeSection sec =
     (let h = sanitizeHeading (andProp sec ''heading'');
          bs = (case andProp sec ''bullets'' of
                  JArr xs \<Rightarrow> filter (\<lambda>b. b \<noteq> []) (map sanitizeBullet xs)
                | _ \<Rightarrow> [])
      in if h \<noteq> [] then [\<lparr>heading = h, bullets = bs\<rparr>] else [])"

definition sourceSections :: "json \<Rightarrow> json list" where
  "sourceSections input =
     (case getProp input ''sections'' of
        JArr xs \<Rightarrow> xs
      | _ \<Rightarrow> (case getProp input ''outline'' of JArr ys \<Rightarrow> ys | _ \<Rightarrow> []))"

fun isObject :: "json \<Rightarrow> bool" where
  "isObject JNull = True"
| "isObject (JArr xs) = True"
| "isObject (JObj kvs) = True"
| "isObject v = False"

definition normalizeNotesState :: "json \<Rightarrow> notes_state" where
  "normalizeNotesState input =
     (if \<not> truthy input \<or> \<not> isObject input then defaultNotesState
      else
        \<lparr>title = nonBlank (getProp input ''title''),
         sections = take MAX_SECTIONS (concat (map normalizeSection (sourceSections input))),
         lastUpdatedAt = nonBlank (getProp input ''lastUpdatedAt''),
         lastChunkId =
           (case nonBlank (getProp input ''lastChunkId'') of
              Some s \<Rightarrow> Some s
            | None \<Rightarrow> nonBlank (getProp input ''lastUpdatedChunkId''))\<rparr>)"

section \<open>Canonical keys and similarity\<close>

definition semanticTextKey :: "jsstring \<Rightarrow> jsstring" where
  "semanticTextKey text =
     joinSp (take 18 (filter (\<lambda>t. t \<notin> set STOPWORDS) (tokensBy isWs (lowerKeyText text))))"

definition canonicalHeading :: "jsstring \<Rightarrow> jsstring" where
  "canonicalHeading h =
     joinSp (take 8 (filter (\<lambda>t. t \<notin> set STOPWORDS) (tokensBy isWs (lowerKeyText h))))"

text \<open>
  The quotient of two token counts. The source divides in double precision and compares
  the quotient with a decimal literal; the rounded quotient and the rounded literal
  compare as the exact values do for every pair of counts a string can hold, so the
  model keeps the exact rational.
\<close>

definition tokenSetSimilarity :: "jsstring \<Rightarrow> jsstring \<Rightarrow> rat" where
  "tokenSetSimilarity a b =
     (let aSet = remdups (tokensBy (\<lambda>c. c = 32) a);
          bSet = remdups (tokensBy (\<lambda>c. c = 32) b)
      in if aSet = [] \<or> bSet = [] then 0
         else of_nat (length (filter (\<lambda>t. t \<in> set bSet) aSet))
              / of_nat (max (length aSet) (length bSet)))"

definition isNearDuplicateText :: "jsstring \<Rightarrow> jsstring \<Rightarrow> bool" where
  "isNearDuplicateText a b =
     (if a = [] \<or> b = [] then False
      else
        let an = semanticTextKey a; bn = semanticTextKey b
        in if an = [] \<or> bn = [] then False
           else if an = bn then True
           else if includesStr an bn \<or> includesStr bn an then True
           else tokenSetSimilarity an bn \<ge> 82 / 100)"

text \<open>The loop of \<^verbatim>\<open>dedupeBullets\<close>, with the bullets kept so far.\<close>

fun dedupeInto :: "jsstring list \<Rightarrow> jsstring list \<Rightarrow> jsstring list" where
  "dedupeInto out [] = out"
| "dedupeInto out (raw # rest) =
     (let bullet = sanitizeBullet (JStr raw)
      in if bullet = [] then dedupeInto out rest
         else if list_ex (\<lambda>existing. isNearDuplicateText existing bullet) out
              then dedupeInto out rest
         else dedupeInto (out @ [bullet]) rest)"

definition dedupeBullets :: "jsstring list \<Rightarrow> jsstring list" where
  "dedupeBullets bs = dedupeInto [] bs"

definition isUsefulHeading :: "jsstring \<Rightarrow> bool" where
  "isUsefulHeading h =
     (if h = [] then False
      else let key = canonicalHeading h
           in if key = [] then False
              else key \<noteq> js ''lecture notes'' \<and> key \<noteq> js ''notes'')"

section \<open>Matching a heading against the existing sections\<close>

text \<open>The first loop: the first section whose canonical heading equals the target.\<close>

fun findExact :: "jsstring \<Rightarrow> note_section list \<Rightarrow> nat \<Rightarrow> nat option" where
  "findExact target [] i = None"
| "findExact target (s # ss) i =
     (if canonicalHeading (heading s) = target then Some i else findExact target ss (Suc i))"

text \<open>
  The second loop, with \<^verbatim>\<open>bestIndex\<close> (\<open>None\<close> for \<^verbatim>\<open>-1\<close>) and \<^verbatim>\<open>bestScore\<close> as its
  state.
\<close>

fun findBest :: "jsstring \<Rightarrow> note_section list \<Rightarrow> nat \<Rightarrow> nat option \<times> rat \<Rightarrow> nat option \<times> rat" where
  "findBest target [] i best = best"
| "findBest target (s # ss) i (bestIndex, bestScore) =
     (let score = tokenSetSimilarity target (canonicalHeading (heading s))
      in if score > bestScore then findBest target ss (Suc i) (Some i, score)
         else findBest target ss (Suc i) (bestIndex, bestScore))"

definition findMatchingSectionIndex :: "note_section list \<Rightarrow> jsstring \<Rightarrow> nat option" where
  "findMatchingSectionIndex secs h =
     (let target = canonicalHeading h
      in if target = [] then None
         else case findExact target secs 0 of
                Some i \<Rightarrow> Some i
              | None \<Rightarrow>
                  (case findBest target secs 0 (None, 0) of
                     (bestIndex, bestScore) \<Rightarrow>
                       if bestScore \<ge> 72 / 100 then bestIndex else None))"

section \<open>The quality merge\<close>

text \<open>\<^verbatim>\<open>xs.slice(-n)\<close>: the last \<open>n\<close> elements, or all of them when there are fewer.\<close>

definition sliceLast :: "nat \<Rightarrow> 'a list \<Rightarrow> 'a list" where
  "sliceLast n xs = drop (length xs - n) xs"

text \<open>The body of the loop over the candidate's sections.\<close>

definition mergeIncoming :: "note_section list \<Rightarrow> note_section \<Rightarrow> note_section list" where
  "mergeIncoming merged incomingSection =
     (let h = sanitizeHeading (JStr (heading incomingSection));
          incomingBullets = dedupeBullets (bullets incomingSection)
      in if h = [] \<or> incomingBullets = [] then merged
         else case findMatchingSectionIndex merged h of
                Some index \<Rightarrow>
                  merged[index := (merged ! index)
                    \<lparr>bullets := dedupeBullets (bullets (merged ! index) @ incomingBullets)\<rparr>]
              | None \<Rightarrow>
                  if isUsefulHeading h
                  then merged @ [\<lparr>heading = h, bullets = incomingBullets\<rparr>]
                  else merged)"

text \<open>The sections of \<^verbatim>\<open>merged\<close> when the loop over the candidate ends, before the caps.\<close>

definition mergedSections :: "json \<Rightarrow> json \<Rightarrow> note_section list" where
  "mergedSections previousNotes candidateNotes =
     (let previous = normalizeNotesState previousNotes;
          candidate = normalizeNotesState candidateNotes
      in foldl mergeIncoming
           (map (\<lambda>s. \<lparr>heading = heading s, bullets = dedupeBullets (bullets s)\<rparr>) (sections previous))
           (sections candidate))"

definition capSection :: "note_section \<Rightarrow> note_section" where
  "capSection s =
     \<lparr>heading = sanitizeHeading (JStr (heading s)),
      bullets = sliceLast MAX_BULLETS_PER_SECTION (dedupeBullets (bullets s))\<rparr>"

definition orElse :: "'a option \<Rightarrow> 'a option \<Rightarrow> 'a option" where
  "orElse a b = (case a of Some x \<Rightarrow> Some x | None \<Rightarrow> b)"

definition enforceCumulativeQuality :: "json \<Rightarrow> json \<Rightarrow> notes_state" where
  "enforceCumulativeQuality previousNotes candidateNotes =
     (let previous = normalizeNotesState previousNotes;
          candidate = normalizeNotesState candidateNotes
      in \<lparr>title = orElse (title previous) (title candidate),
          sections =
            take MAX_SECTIONS
              (filter (\<lambda>s. heading s \<noteq> [] \<and> bullets s \<noteq> [])
                 (map capSection (mergedSections previousNotes candidateNotes))),
          lastUpdatedAt = orElse (lastUpdatedAt candidate) (lastUpdatedAt previous),
          lastChunkId = orElse (lastChunkId candidate) (lastChunkId previous)\<rparr>)"

section \<open>Tightening the cleaned transcript\<close>

text \<open>
  \<^verbatim>\<open>text.replace(/\r/g, '\n').split(/\n+/)\<close>: the pieces between the maximal runs of line
  feeds, empty pieces at the ends included.
\<close>

fun splitLines :: "bool \<Rightarrow> jsstring \<Rightarrow> jsstring \<Rightarrow> jsstring list" where
  "splitLines inRun cur [] = [cur]"
| "splitLines inRun cur (c # cs) =
     (if c = 10 \<or> c = 13 then (if inRun then splitLines True cur cs else cur # splitLines True [] cs)
      else splitLines False (cur @ [c]) cs)"

definition isSentenceEnd :: "nat \<Rightarrow> bool" where
  "isSentenceEnd c \<longleftrightarrow> c = 46 \<or> c = 33 \<or> c = 63"

text \<open>
  \<^verbatim>\<open>line.split(/(?<=[.!?])\s+/)\<close>: a separator is a maximal run of white space that
  follows a full stop, an exclamation mark or a question mark.
\<close>

fun splitSentences :: "bool \<Rightarrow> bool \<Rightarrow> jsstring \<Rightarrow> jsstring \<Rightarrow> jsstring list" where
  "splitSentences afterEnd inSep cur [] = [cur]"
| "splitSentences afterEnd inSep cur (c # cs) =
     (if isWs c \<and> inSep then splitSentences False True cur cs
      else if isWs c \<and> afterEnd then cur # splitSentences False True [] cs
      else splitSentences (isSentenceEnd c) False (cur @ [c]) cs)"

definition rawParts :: "jsstring \<Rightarrow> jsstring list" where
  "rawParts text = concat (map (splitSentences False False []) (splitLines False [] text))"

definition isDashGlyph :: "nat \<Rightarrow> bool" where
  "isDashGlyph c \<longleftrightarrow> c = 45 \<or> c = 42 \<or> c = 8226"

text \<open>\<^verbatim>\<open>s.replace(/^\s*[-*\u2022]+\s*/, '')\<close>.\<close>

definition stripDashLead :: "jsstring \<Rightarrow> jsstring" where
  "stripDashLead s =
     (case dropWhile isWs s of
        [] \<Rightarrow> s
      | c # cs \<Rightarrow> if isDashGlyph c then dropWhile isWs (dropWhile isDashGlyph cs) else s)"

definition normalizeSentence :: "jsstring \<Rightarrow> jsstring" where
  "normalizeSentence text = trim (stripDashLead (collapseWs text))"

text \<open>
  \<^verbatim>\<open>FILLER_ONLY_RE\<close>. An alternative of the pattern is a fixed phrase, or a stem
  followed by one or more copies of its last letter; after it only white space and the
  marks \<^verbatim>\<open>, . - ! ?\<close> may follow.
\<close>

definition isFillerTail :: "nat \<Rightarrow> bool" where
  "isFillerTail c \<longleftrightarrow> isWs c \<or> c = 44 \<or> c = 46 \<or> c = 45 \<or> c = 33 \<or> c = 63"

definition FILLER_REPEATS :: "(string \<times> string) list" where
  "FILLER_REPEATS =
     [(''u'', ''h''), (''u'', ''m''), (''hm'', ''m''), (''m'', ''m''), (''yea'', ''h''),
      (''oka'', ''y''), (''o'', ''k''), (''righ'', ''t''), (''s'', ''o''), (''wel'', ''l''),
      (''lik'', ''e'')]"

definition FILLER_PHRASES :: "string list" where
  "FILLER_PHRASES = [''you know'', ''i mean'', ''alright'', ''all right'', ''let'' @ [CHR 0x27] @ ''s see'', ''huh'']"

definition matchesRepeat :: "jsstring \<Rightarrow> string \<times> string \<Rightarrow> bool" where
  "matchesRepeat s alt =
     (case alt of (stem, letter) \<Rightarrow>
        prefix (js (stem @ letter)) s \<and>
        list_all isFillerTail
          (dropWhile (\<lambda>c. [c] = js letter) (drop (length stem + length letter) s)))"

definition matchesPhrase :: "jsstring \<Rightarrow> string \<Rightarrow> bool" where
  "matchesPhrase s phrase =
     (prefix (js phrase) s \<and> list_all isFillerTail (drop (length phrase) s))"

definition fillerOnly :: "jsstring \<Rightarrow> bool" where
  "fillerOnly sentence =
     (let s = map lowerAscii sentence
      in list_ex (matchesRepeat s) FILLER_REPEATS \<or> list_ex (matchesPhrase s) FILLER_PHRASES)"

definition FILLER_TOKENS :: "jsstring list" where
  "FILLER_TOKENS = map js
     [''uh'', ''um'', ''hmm'', ''yeah'', ''okay'', ''ok'', ''right'', ''so'', ''well'', ''like'']"

definition isFillerSentence :: "jsstring \<Rightarrow> bool" where
  "isFillerSentence sentence =
     (if sentence = [] then True
      else if fillerOnly sentence then True
      else
        let normalized = trim (collapseWs (lowerKeyText sentence))
        in if normalized = [] then True
           else
             let tokens = tokensBy (\<lambda>c. c = 32) normalized
             in if length tokens \<le> 2 then list_all (\<lambda>token. token \<in> set FILLER_TOKENS) tokens
                else False)"

text \<open>The loop of \<^verbatim>\<open>tightenCleanTranscript\<close>, with the sentences kept so far.\<close>

fun tightenInto :: "jsstring list \<Rightarrow> jsstring list \<Rightarrow> jsstring list" where
  "tightenInto cleaned [] = cleaned"
| "tightenInto cleaned (part # rest) =
     (let sentence = normalizeSentence part
      in if sentence = [] then tightenInto cleaned rest
         else if isFillerSentence sentence then tightenInto cleaned rest
         else if cleaned \<noteq> [] \<and> last cleaned \<noteq> [] \<and> isNearDuplicateText (last cleaned) sentence
              then tightenInto cleaned rest
         else tightenInto (cleaned @ [sentence]) rest)"

definition tightenCleanTranscript :: "jsstring \<Rightarrow> jsstring" where
  "tightenCleanTranscript text =
     (if text = [] then []
      else trim (collapseWs (joinSp (tightenInto [] (rawParts text)))))"

section \<open>Parsing the model's answer\<close>

text \<open>
  \<^verbatim>\<open>JSON.parse\<close> is the platform's; the functions below take it as a parameter that
  gives \<open>None\<close> where the platform throws a syntax error.
\<close>

definition stripFenceJson :: "jsstring \<Rightarrow> jsstring" where
  "stripFenceJson s =
     (if prefix (js ''```json'') (map lowerAscii (take 7 s)) then dropWhile isWs (drop 7 s) else s)"

definition stripFenceOpen :: "jsstring \<Rightarrow> jsstring" where
  "stripFenceOpen s = (if prefix (js ''```'') s then dropWhile isWs (drop 3 s) else s)"

definition stripFenceClose :: "jsstring \<Rightarrow> jsstring" where
  "stripFenceClose s =
     (if prefix (js ''```'') (rev s) then rev (dropWhile isWs (drop 3 (rev s))) else s)"

text \<open>\<^verbatim>\<open>s.indexOf('{')\<close> and \<^verbatim>\<open>s.lastIndexOf('}')\<close>, \<open>None\<close> for \<^verbatim>\<open>-1\<close>.\<close>

fun indexOfFrom :: "nat \<Rightarrow> nat \<Rightarrow> jsstring \<Rightarrow> nat option" where
  "indexOfFrom ch i [] = None"
| "indexOfFrom ch i (c # cs) = (if c = ch then Some i else indexOfFrom ch (Suc i) cs)"

definition lastIndexOf :: "nat \<Rightarrow> jsstring \<Rightarrow> nat option" where
  "lastIndexOf ch s =
     (case indexOfFrom ch 0 (rev s) of None \<Rightarrow> None | Some k \<Rightarrow> Some (length s - 1 - k))"

definition tryParseJson :: "(jsstring \<Rightarrow> json option) \<Rightarrow> jsstring \<Rightarrow> json" where
  "tryParseJson JSON_parse text =
     (if text = [] then JNull
      else
        let stripped = trim (stripFenceClose (stripFenceOpen (stripFenceJson (trim text))))
        in case JSON_parse stripped of
             Some v \<Rightarrow> v
           | None \<Rightarrow>
               (case (indexOfFrom 123 0 stripped, lastIndexOf 125 stripped) of
                  (Some start, Some end) \<Rightarrow>
                    if end > start
                    then (case JSON_parse (take (end + 1 - start) (drop start stripped)) of
                            Some v \<Rightarrow> v
                          | None \<Rightarrow> JNull)
                    else JNull
                | _ \<Rightarrow> JNull))"

section \<open>Providers and AI settings\<close>

datatype provider = GEMINI | OPENAI | ANTHROPIC

fun providerName :: "provider \<Rightarrow> string" where
  "providerName GEMINI = ''gemini''"
| "providerName OPENAI = ''openai''"
| "providerName ANTHROPIC = ''anthropic''"

definition DEFAULT_PROVIDER :: provider where
  "DEFAULT_PROVIDER = GEMINI"

fun DEFAULT_MODELS :: "provider \<Rightarrow> jsstring" where
  "DEFAULT_MODELS GEMINI = js ''gemini-2.0-flash''"
| "DEFAULT_MODELS OPENAI = js ''gpt-4o-mini''"
| "DEFAULT_MODELS ANTHROPIC = js ''claude-3-5-haiku-latest''"

text \<open>\<^verbatim>\<open>isValidProvider(value)\<close>, giving the provider when the test holds.\<close>

definition isValidProvider :: "json \<Rightarrow> provider option" where
  "isValidProvider v =
     (if v = JStr (js ''gemini'') then Some GEMINI
      else if v = JStr (js ''openai'') then Some OPENAI
      else if v = JStr (js ''anthropic'') then Some ANTHROPIC
      else None)"

record ai_settings =
  aiNotesEnabled :: bool
  provider :: provider
  keys :: "provider \<Rightarrow> jsstring"
  models :: "provider \<Rightarrow> jsstring"

text \<open>\<^verbatim>\<open>a || b\<close> on strings.\<close>

definition orStr :: "jsstring \<Rightarrow> jsstring \<Rightarrow> jsstring" where
  "orStr a b = (if a \<noteq> [] then a else b)"

definition normalizeModelName :: "json \<Rightarrow> jsstring" where
  "normalizeModelName name =
     (case name of
        JStr s \<Rightarrow>
          if s = [] then []
          else trim (if prefix (js ''models/'') s then drop 7 s else s)
      | _ \<Rightarrow> [])"

definition trimmedString :: "json \<Rightarrow> jsstring" where
  "trimmedString v = (case v of JStr s \<Rightarrow> trim s | _ \<Rightarrow> [])"

definition getStoredKey :: "json \<Rightarrow> provider \<Rightarrow> jsstring" where
  "getStoredKey stored p =
     (if truthy stored \<and> truthy (getProp stored ''keys'')
      then trimmedString (getProp (getProp stored ''keys'') (providerName p))
      else [])"

definition getStoredModel :: "json \<Rightarrow> provider \<Rightarrow> jsstring" where
  "getStoredModel stored p =
     (if truthy stored \<and> truthy (getProp stored ''models'')
      then (case getProp (getProp stored ''models'') (providerName p) of
              JStr s \<Rightarrow> normalizeModelName (JStr s)
            | _ \<Rightarrow> [])
      else [])"

text \<open>
  The settings computed by \<^verbatim>\<open>getAiSettings\<close> from the value stored under
  \<^verbatim>\<open>aiSettings\<close> and from the keys defined on the worker's global object.
\<close>

definition aiSettingsOf :: "(provider \<Rightarrow> json) \<Rightarrow> json \<Rightarrow> ai_settings" where
  "aiSettingsOf selfKey raw =
     (let stored = (if truthy raw then raw else JObj []);
          legacyGeminiKey = trimmedString (getProp stored ''apiKey'')
      in \<lparr>aiNotesEnabled = truthy (getProp stored ''aiNotesEnabled''),
          provider = (case isValidProvider (getProp stored ''provider'') of
                        Some p \<Rightarrow> p
                      | None \<Rightarrow> DEFAULT_PROVIDER),
          keys = (\<lambda>p. case p of
                     GEMINI \<Rightarrow> orStr (getStoredKey stored GEMINI)
                                 (orStr legacyGeminiKey (trimmedString (selfKey GEMINI)))
                   | _ \<Rightarrow> orStr (getStoredKey stored p) (trimmedString (selfKey p))),
          models = (\<lambda>p. case p of
                     GEMINI \<Rightarrow> orStr (getStoredModel stored GEMINI)
                                 (orStr (normalizeModelName (getProp stored ''model''))
                                    (DEFAULT_MODELS GEMINI))
                   | _ \<Rightarrow> orStr (getStoredModel stored p) (DEFAULT_MODELS p))\<rparr>)"

definition getProviderApiKey :: "ai_settings \<Rightarrow> provider \<Rightarrow> jsstring" where
  "getProviderApiKey settings p = trim (keys settings p)"

definition resolveAnthropicModel :: "jsstring \<Rightarrow> jsstring" where
  "resolveAnthropicModel requestedModel =
     orStr (normalizeModelName (JStr requestedModel)) (js ''claude-3-5-haiku-latest'')"

section \<open>The service worker as a state machine\<close>

text \<open>
  What the worker owns or can observe: the two storage areas, the time stamp of the
  rate limit, the clock read by \<^verbatim>\<open>Date.now()\<close>, the messages broadcast to the side panel
  and the lines written with \<^verbatim>\<open>console.error\<close>. Three fields are bookkeeping of the
  model: the number of operations awaited so far, which indexes the environment, the list
  of provider calls with the clock at their start and at their end, and the list of the
  errors thrown so far, by a rejected operation or by a \<^verbatim>\<open>throw\<close> statement, whether or
  not something caught them later. The errors that a provider call raises are the
  rejection of that call. A syntax error of \<^verbatim>\<open>JSON.parse\<close> never leaves \<^verbatim>\<open>tryParseJson\<close>,
  which yields \<^verbatim>\<open>null\<close> instead, and is not in the list.
\<close>

record finalized_chunk =
  chunkId :: jsstring
  tStart :: rat
  tEnd :: rat
  chunkText :: jsstring

datatype sw_message = NOTES_UPDATE notes_state | ERROR jsstring

datatype call_kind = CleanCall | MergeCall | RepairCall

record sw_state =
  sessionNotes :: json
  localSettings :: json
  lastLlmCallAt :: int
  clock :: int
  opCount :: nat
  sidePanel :: "sw_message list"
  consoleErrors :: "jsstring list"
  modelCalls :: "(call_kind \<times> int \<times> int) list"
  thrown :: "jsstring list"

text \<open>
  The environment decides every awaited operation: whether the \<open>k\<close>-th one rejects (and
  with which message), what it yields otherwise, and how long it takes. It also holds
  the platform functions that the worker calls.
\<close>

record environment =
  failure :: "nat \<Rightarrow> jsstring option"
  payload :: "nat \<Rightarrow> jsstring"
  elapsed :: "nat \<Rightarrow> nat"
  selfKeys :: "provider \<Rightarrow> json"
  JSON_parse :: "jsstring \<Rightarrow> json option"
  toISOString :: "int \<Rightarrow> jsstring"

text \<open>
  An asynchronous function: it runs on a state and either throws (\<open>Inl\<close>, the message
  of the error) or returns.
\<close>

type_synonym 'a task = "sw_state \<Rightarrow> (jsstring + 'a) \<times> sw_state"

definition ret :: "'a \<Rightarrow> 'a task" where
  "ret x s = (Inr x, s)"

definition throw :: "jsstring \<Rightarrow> 'a task" where
  "throw e s = (Inl e, s\<lparr>thrown := thrown s @ [e]\<rparr>)"

definition andThen :: "'a task \<Rightarrow> ('a \<Rightarrow> 'b task) \<Rightarrow> 'b task" where
  "andThen m f s = (case m s of (Inl e, s') \<Rightarrow> (Inl e, s') | (Inr x, s') \<Rightarrow> f x s')"

definition tryCatch :: "'a task \<Rightarrow> (jsstring \<Rightarrow> 'a task) \<Rightarrow> 'a task" where
  "tryCatch m handler s = (case m s of (Inl e, s') \<Rightarrow> handler e s' | (Inr x, s') \<Rightarrow> (Inr x, s'))"

text \<open>One awaited operation of the environment.\<close>

definition external :: "environment \<Rightarrow> jsstring task" where
  "external env s =
     (let k = opCount s;
          s' = s\<lparr>clock := clock s + int (elapsed env k), opCount := Suc k\<rparr>
      in case failure env k of
           Some e \<Rightarrow> (Inl e, s'\<lparr>thrown := thrown s' @ [e]\<rparr>)
         | None \<Rightarrow> (Inr (payload env k), s'))"

text \<open>\<^verbatim>\<open>sleep(ms)\<close>: the timer fires after the delay asked for, or later.\<close>

definition sleep :: "environment \<Rightarrow> int \<Rightarrow> unit task" where
  "sleep env ms s =
     (Inr (), s\<lparr>clock := clock s + ms + int (elapsed env (opCount s)), opCount := Suc (opCount s)\<rparr>)"

definition broadcastToSidePanel :: "sw_message \<Rightarrow> unit task" where
  "broadcastToSidePanel message s = (Inr (), s\<lparr>sidePanel := sidePanel s @ [message]\<rparr>)"

definition consoleError :: "jsstring \<Rightarrow> unit task" where
  "consoleError line s = (Inr (), s\<lparr>consoleErrors := consoleErrors s @ [line]\<rparr>)"

definition getNotesState :: "environment \<Rightarrow> notes_state task" where
  "getNotesState env =
     andThen (external env) (\<lambda>_ s. (Inr (normalizeNotesState (sessionNotes s)), s))"

definition updateNotesState :: "environment \<Rightarrow> notes_state \<Rightarrow> unit task" where
  "updateNotesState env notes =
     andThen (external env)
       (\<lambda>_ s. (Inr (), s\<lparr>sessionNotes := notesJson (normalizeNotesState (notesJson notes))\<rparr>))"

definition getAiSettings :: "environment \<Rightarrow> ai_settings task" where
  "getAiSettings env =
     andThen (external env) (\<lambda>_ s. (Inr (aiSettingsOf (selfKeys env) (localSettings s)), s))"

definition waitForRateLimit :: "environment \<Rightarrow> unit task" where
  "waitForRateLimit env s =
     (let now = clock s;
          delay = max 0 (MIN_LLM_INTERVAL_MS - (now - lastLlmCallAt s));
          s1 = (if delay > 0 then snd (sleep env delay s) else s)
      in (Inr (), s1\<lparr>lastLlmCallAt := clock s1\<rparr>))"

record ai_context =
  ctxProvider :: provider
  ctxApiKey :: jsstring
  ctxModel :: jsstring

text \<open>
  The provider contract: text in, text out. The request and its retries are one awaited
  operation of the environment; the call is entered in \<open>modelCalls\<close> with the clock at
  its start and at its end.
\<close>

definition callModelText :: "environment \<Rightarrow> call_kind \<Rightarrow> ai_context \<Rightarrow> jsstring task" where
  "callModelText env kind ctx s =
     (case external env s of
        (r, s') \<Rightarrow> (r, s'\<lparr>modelCalls := modelCalls s' @ [(kind, clock s, clock s')]\<rparr>))"

definition runCaptionCleaner :: "environment \<Rightarrow> jsstring \<Rightarrow> jsstring \<Rightarrow> ai_context \<Rightarrow> jsstring task" where
  "runCaptionCleaner env text tailContext ctx = callModelText env CleanCall ctx"

definition runNotesMerger :: "environment \<Rightarrow> notes_state \<Rightarrow> jsstring \<Rightarrow> ai_context \<Rightarrow> jsstring task" where
  "runNotesMerger env notes cleanText ctx = callModelText env MergeCall ctx"

definition repairNotesJson :: "environment \<Rightarrow> jsstring \<Rightarrow> ai_context \<Rightarrow> jsstring task" where
  "repairNotesJson env invalidText ctx = callModelText env RepairCall ctx"

definition parseAndValidateNotesJson :: "environment \<Rightarrow> jsstring \<Rightarrow> ai_context \<Rightarrow> notes_state task" where
  "parseAndValidateNotesJson env rawText ctx =
     (let parsed = tryParseJson (JSON_parse env) rawText
      in if truthy parsed then ret (normalizeNotesState parsed)
         else andThen (repairNotesJson env rawText ctx)
                (\<lambda>repairedText.
                   let repaired = tryParseJson (JSON_parse env) repairedText
                   in if \<not> truthy repaired
                      then throw (js ''Model output could not be parsed as valid JSON.'')
                      else ret (normalizeNotesState repaired)))"

text \<open>
  Model resolution for the providers that list their models reaches the network and a
  cache; here it is one awaited operation that rejects or yields the model's name.
\<close>

definition resolveModelForProvider :: "environment \<Rightarrow> provider \<Rightarrow> jsstring \<Rightarrow> jsstring \<Rightarrow> jsstring task" where
  "resolveModelForProvider env p apiKey requestedModel =
     (case p of
        ANTHROPIC \<Rightarrow> ret (resolveAnthropicModel requestedModel)
      | _ \<Rightarrow> external env)"

definition updateNotesWithLLM ::
  "environment \<Rightarrow> notes_state \<Rightarrow> finalized_chunk \<Rightarrow> jsstring \<Rightarrow> ai_context \<Rightarrow> notes_state task" where
  "updateNotesWithLLM env notes chunk tailContext ctx =
     (let previousNotes = normalizeNotesState (notesJson notes)
      in andThen (runCaptionCleaner env (chunkText chunk) tailContext ctx)
           (\<lambda>cleanedRaw.
              let cleanText = tightenCleanTranscript cleanedRaw
              in if trim cleanText = []
                 then ret (previousNotes
                        \<lparr>lastChunkId :=
                           (if chunkId chunk \<noteq> [] then Some (chunkId chunk)
                            else lastChunkId previousNotes)\<rparr>)
                 else andThen (runNotesMerger env previousNotes cleanText ctx)
                        (\<lambda>mergedRaw.
                           andThen (parseAndValidateNotesJson env mergedRaw ctx)
                             (\<lambda>mergedParsed s.
                                let qualityMerged =
                                      enforceCumulativeQuality (notesJson previousNotes)
                                        (notesJson mergedParsed)
                                in (Inr (qualityMerged
                                      \<lparr>lastUpdatedAt := Some (toISOString env (clock s)),
                                       lastChunkId :=
                                         (if chunkId chunk \<noteq> [] then Some (chunkId chunk)
                                          else lastChunkId qualityMerged)\<rparr>), s)))))"

text \<open>The body of the \<^verbatim>\<open>try\<close> block of \<^verbatim>\<open>handleFinalizeChunk\<close>, and its \<^verbatim>\<open>catch\<close> block.\<close>

definition tryUpdateNotes ::
  "environment \<Rightarrow> provider \<Rightarrow> jsstring \<Rightarrow> ai_settings \<Rightarrow> notes_state \<Rightarrow> finalized_chunk
     \<Rightarrow> jsstring \<Rightarrow> unit task" where
  "tryUpdateNotes env p apiKey aiSettings currentNotes chunk tailContext =
     andThen (resolveModelForProvider env p apiKey (models aiSettings p))
       (\<lambda>resolvedModel.
     andThen (updateNotesWithLLM env currentNotes chunk tailContext
                \<lparr>ctxProvider = p, ctxApiKey = apiKey, ctxModel = resolvedModel\<rparr>)
       (\<lambda>updatedNotes.
     andThen (updateNotesState env updatedNotes)
       (\<lambda>_. broadcastToSidePanel (NOTES_UPDATE updatedNotes))))"

definition reportUpdateFailure :: "provider \<Rightarrow> jsstring \<Rightarrow> unit task" where
  "reportUpdateFailure p error =
     andThen (consoleError (js ''Error updating notes with '' @ js (providerName p) @ js '': '' @ error))
       (\<lambda>_. broadcastToSidePanel
               (ERROR (js (providerName p) @ js '' notes update failed: '' @ error)))"

definition handleFinalizeChunk :: "environment \<Rightarrow> finalized_chunk option \<Rightarrow> jsstring \<Rightarrow> unit task" where
  "handleFinalizeChunk env chunkOpt tailContext =
     (case chunkOpt of
        None \<Rightarrow> ret ()
      | Some chunk \<Rightarrow>
          if chunkText chunk = [] \<or> trim (chunkText chunk) = [] then ret ()
          else
            andThen (getNotesState env) (\<lambda>currentNotes.
            andThen (getAiSettings env) (\<lambda>aiSettings.
              if \<not> aiNotesEnabled aiSettings then ret ()
              else
                let p = provider aiSettings;
                    apiKey = getProviderApiKey aiSettings p
                in if apiKey = []
                   then broadcastToSidePanel
                          (ERROR (js ''AI Notes enabled, but no API key saved for ''
                                  @ js (providerName p) @ js ''.''))
                   else
                     andThen (waitForRateLimit env) (\<lambda>_.
                       tryCatch
                         (tryUpdateNotes env p apiKey aiSettings currentNotes chunk tailContext)
                         (reportUpdateFailure p)))))"

text \<open>
  The queue: every \<^verbatim>\<open>FINALIZE_CHUNK\<close> message chains its task behind the earlier ones.
  One link runs the task and, when an error escapes it, logs the error and settles all
  the same, so that the chain goes on. The result lists how each task ended.
\<close>

definition queueLink ::
  "environment \<Rightarrow> finalized_chunk option \<Rightarrow> jsstring \<Rightarrow> sw_state \<Rightarrow> (jsstring + unit) \<times> sw_state" where
  "queueLink env chunk tailContext s =
     (case handleFinalizeChunk env chunk tailContext s of
        (Inl e, s1) \<Rightarrow> (Inl e, snd (consoleError (js ''Chunk processing failed: '' @ e) s1))
      | (Inr x, s1) \<Rightarrow> (Inr x, s1))"

fun runQueue ::
  "environment \<Rightarrow> (finalized_chunk option \<times> jsstring) list \<Rightarrow> sw_state
     \<Rightarrow> (jsstring + unit) list \<times> sw_state" where
  "runQueue env [] s = ([], s)"
| "runQueue env ((chunk, tailContext) # rest) s =
     (case queueLink env chunk tailContext s of
        (r, s2) \<Rightarrow> (case runQueue env rest s2 of (rs, s3) \<Rightarrow> (r # rs, s3)))"

section \<open>The content script: transcript and chunk accumulation\<close>

text \<open>
  The state of the content script that the transcript and the chunk depend on. Finding
  the caption element and the video in the page, and the status messages derived from
  them, are left out: \<open>captionElement\<close> says whether an element is attached, and each event
  carries what the handler reads from the page and from the clock.
\<close>

record transcript_entry =
  entryText :: jsstring
  startTime :: rat
  endTime :: rat
  entryTStart :: rat
  entryTEnd :: rat
  timestamp :: int

record in_progress_chunk = finalized_chunk +
  parts :: "jsstring list"

record video =
  currentTime :: rat
  paused :: bool
  ended :: bool

datatype content_message =
    FINALIZE_CHUNK finalized_chunk jsstring
  | TRANSCRIPT_UPDATE "transcript_entry list" "finalized_chunk option"

record content_state =
  isCapturing :: bool
  captionElement :: bool
  transcriptBuffer :: "transcript_entry list"
  currentChunk :: "in_progress_chunk option"
  chunkStartWallTime :: "int option"
  lastCaptionUpdateAt :: int
  sent :: "content_message list"

text \<open>
  What one run of a handler reads: the text of the caption element, \<^verbatim>\<open>Date.now()\<close> at
  the start of the handler, the video element if there is one, and, for the case that a
  chunk is opened, the identifier produced by \<^verbatim>\<open>generateChunkId()\<close> and the clock read
  at that moment.
\<close>

record caption_event =
  textContent :: jsstring
  now :: int
  videoElement :: "video option"
  newChunkId :: jsstring
  chunkNow :: int

definition CHUNK_SECONDS :: rat where
  "CHUNK_SECONDS = 180"

definition CHUNK_MAX_CHARS :: nat where
  "CHUNK_MAX_CHARS = 5000"

definition normalizeText :: "jsstring \<Rightarrow> jsstring" where
  "normalizeText text = filter (\<lambda>c. c \<noteq> 8203) (collapseWs (trim text))"

definition getVideoTime :: "caption_event \<Rightarrow> rat" where
  "getVideoTime ev = (case videoElement ev of None \<Rightarrow> 0 | Some v \<Rightarrow> currentTime v)"

definition getTailContext :: "caption_event \<Rightarrow> content_state \<Rightarrow> jsstring" where
  "getTailContext ev st =
     (let cutoff = getVideoTime ev - 30
      in joinSp (map entryText (filter (\<lambda>entry. startTime entry \<ge> cutoff) (transcriptBuffer st))))"

definition snapshot :: "in_progress_chunk \<Rightarrow> finalized_chunk" where
  "snapshot c = \<lparr>chunkId = chunkId c, tStart = tStart c, tEnd = tEnd c, chunkText = chunkText c\<rparr>"

definition appendTranscriptEntry :: "jsstring \<Rightarrow> rat \<Rightarrow> int \<Rightarrow> content_state \<Rightarrow> content_state" where
  "appendTranscriptEntry text tNow nowMs st =
     st\<lparr>transcriptBuffer := transcriptBuffer st @
          [\<lparr>entryText = text, startTime = tNow, endTime = tNow, entryTStart = tNow,
            entryTEnd = tNow, timestamp = nowMs\<rparr>]\<rparr>"

definition appendChunkPart :: "caption_event \<Rightarrow> jsstring \<Rightarrow> rat \<Rightarrow> content_state \<Rightarrow> content_state" where
  "appendChunkPart ev text tNow st =
     (case currentChunk st of
        None \<Rightarrow>
          st\<lparr>currentChunk :=
               Some \<lparr>chunkId = newChunkId ev, tStart = tNow, tEnd = tNow, chunkText = text,
                     parts = [text]\<rparr>,
             chunkStartWallTime := Some (chunkNow ev)\<rparr>
      | Some c \<Rightarrow>
          st\<lparr>currentChunk :=
               Some (c\<lparr>parts := parts c @ [text], chunkText := joinSp (parts c @ [text]),
                       tEnd := tNow\<rparr>)\<rparr>)"

definition replaceLastChunkPart :: "jsstring \<Rightarrow> rat \<Rightarrow> content_state \<Rightarrow> content_state" where
  "replaceLastChunkPart text tNow st =
     (case currentChunk st of
        None \<Rightarrow> st
      | Some c \<Rightarrow>
          if parts c = [] then st
          else st\<lparr>currentChunk :=
                    Some (c\<lparr>parts := butlast (parts c) @ [text],
                            chunkText := joinSp (butlast (parts c) @ [text]),
                            tEnd := tNow\<rparr>)\<rparr>)"

definition finalizeChunk :: "caption_event \<Rightarrow> content_state \<Rightarrow> content_state" where
  "finalizeChunk ev st =
     (case currentChunk st of
        None \<Rightarrow> st
      | Some c \<Rightarrow>
          if trim (chunkText c) = [] then st
          else st\<lparr>sent := sent st @ [FINALIZE_CHUNK (snapshot c) (getTailContext ev st)],
                  currentChunk := None,
                  chunkStartWallTime := None\<rparr>)"

definition maybeFinalizeChunk :: "caption_event \<Rightarrow> int \<Rightarrow> content_state \<Rightarrow> content_state" where
  "maybeFinalizeChunk ev nowMs st =
     (case (currentChunk st, chunkStartWallTime st) of
        (Some c, Some started) \<Rightarrow>
          if started = 0 then st
          else
            let elapsedSeconds = (of_int (nowMs - started) :: rat) / 1000;
                shouldFinalize =
                  (elapsedSeconds \<ge> CHUNK_SECONDS \<or>
                   length (chunkText c) > CHUNK_MAX_CHARS \<or>
                   (case videoElement ev of None \<Rightarrow> False | Some v \<Rightarrow> paused v \<or> ended v))
            in if shouldFinalize then finalizeChunk ev st else st
      | _ \<Rightarrow> st)"

definition sendTranscriptUpdate :: "content_state \<Rightarrow> content_state" where
  "sendTranscriptUpdate st =
     st\<lparr>sent := sent st @
          [TRANSCRIPT_UPDATE (sliceLast 50 (transcriptBuffer st))
             (map_option snapshot (currentChunk st))]\<rparr>"

text \<open>The entry that \<^verbatim>\<open>lastEntry\<close> names, rewritten in place.\<close>

definition updateLastEntry ::
  "(transcript_entry \<Rightarrow> transcript_entry) \<Rightarrow> content_state \<Rightarrow> content_state" where
  "updateLastEntry f st =
     (if transcriptBuffer st = [] then st
      else st\<lparr>transcriptBuffer :=
                butlast (transcriptBuffer st) @ [f (last (transcriptBuffer st))]\<rparr>)"

definition handleCaptionChange :: "caption_event \<Rightarrow> content_state \<Rightarrow> content_state" where
  "handleCaptionChange ev st =
     (if \<not> isCapturing st \<or> \<not> captionElement st then st
      else
        let text = normalizeText (textContent ev)
        in if text = [] then st
           else
             let tNow = getVideoTime ev;
                 buf = transcriptBuffer st
             in if buf \<noteq> [] \<and> entryText (last buf) = text then st
                else
                  let shouldReplace = (buf \<noteq> [] \<and> startsWith text (entryText (last buf)));
                      st1 =
                        (if shouldReplace
                         then replaceLastChunkPart text tNow
                                (updateLastEntry
                                   (\<lambda>e. e\<lparr>entryText := text, endTime := tNow, entryTEnd := tNow,
                                           timestamp := now ev\<rparr>) st)
                         else appendChunkPart ev text tNow
                                (appendTranscriptEntry text tNow (now ev)
                                   (if buf \<noteq> [] \<and> tNow \<ge> startTime (last buf)
                                    then updateLastEntry (\<lambda>e. e\<lparr>endTime := tNow, entryTEnd := tNow\<rparr>) st
                                    else st)));
                      st2 = st1\<lparr>lastCaptionUpdateAt := now ev\<rparr>
                  in sendTranscriptUpdate (maybeFinalizeChunk ev (now ev) st2))"

text \<open>The handlers of the messages \<^verbatim>\<open>PAUSE_CAPTURE\<close> and \<^verbatim>\<open>CLEAR_SESSION\<close>.\<close>

definition onPauseCapture :: "caption_event \<Rightarrow> content_state \<Rightarrow> content_state" where
  "onPauseCapture ev st =
     (let st1 = st\<lparr>isCapturing := False\<rparr>
      in if currentChunk st1 \<noteq> None then finalizeChunk ev st1 else st1)"

definition onClearSession :: "content_state \<Rightarrow> content_state" where
  "onClearSession st =
     st\<lparr>transcriptBuffer := [],
        currentChunk := None,
        chunkStartWallTime := None,
        lastCaptionUpdateAt := 0,
        isCapturing := False,
        sent := sent st @ [TRANSCRIPT_UPDATE [] None]\<rparr>"

definition isFinalizeMessage :: "content_message \<Rightarrow> bool" where
  "isFinalizeMessage m = (case m of FINALIZE_CHUNK c t \<Rightarrow> True | _ \<Rightarrow> False)"

section \<open>Predicates of the proofs and concrete inputs\<close>

text \<open>
  A string in which every white space is a single space that follows no other white
  space; the flag says whether the code unit before the string is white space.
\<close>

fun wsNormal :: "bool \<Rightarrow> jsstring \<Rightarrow> bool" where
  "wsNormal prev [] = True"
| "wsNormal prev (c # cs) = (if isWs c then c = 32 \<and> \<not> prev \<and> wsNormal True cs else wsNormal False cs)"

text \<open>
  A string that neither starts nor ends with white space.
\<close>

definition cleanEnds :: "jsstring \<Rightarrow> bool" where
  "cleanEnds s \<longleftrightarrow> s = [] \<or> (\<not> isWs (hd s) \<and> \<not> isWs (last s))"

text \<open>
  A bullet whose first code unit is one of the glyphs that
  \<^verbatim>\<open>sanitizeBullet\<close> strips from the front.
\<close>

definition startsWithGlyph :: "jsstring \<Rightarrow> bool" where
  "startsWithGlyph b = (case b of [] \<Rightarrow> False | c # cs \<Rightarrow> isBulletGlyph c)"

text \<open>
  A section whose bullets went through \<^verbatim>\<open>sanitizeBullet\<close> once
  more.
\<close>

definition resanitized :: "note_section \<Rightarrow> note_section" where
  "resanitized s = s\<lparr>bullets := filter (\<lambda>b. b \<noteq> []) (map (\<lambda>b. sanitizeBullet (JStr b)) (bullets s))\<rparr>"

text \<open>
  What \<^verbatim>\<open>normalizeNotesState\<close> guarantees of every section it
  returns.
\<close>

definition normalSection :: "note_section \<Rightarrow> bool" where
  "normalSection s \<longleftrightarrow>
     heading s \<noteq> [] \<and> (\<exists>v. heading s = sanitizeHeading v) \<and>
     (\<forall>b \<in> set (bullets s). b \<noteq> [] \<and> (\<exists>w. b = sanitizeBullet w))"

text \<open>
  A bullet list whose first bullet is not empty and is left as it is by
  \<^verbatim>\<open>sanitizeBullet\<close>.
\<close>

definition headStable :: "jsstring list \<Rightarrow> bool" where
  "headStable bs \<longleftrightarrow> bs \<noteq> [] \<and> hd bs \<noteq> [] \<and> sanitizeBullet (JStr (hd bs)) = hd bs"

text \<open>
  The merged list still holds, at position \<open>i\<close>, a section with heading
  \<open>h\<close> and a stable first bullet.
\<close>

definition keepsSection :: "jsstring \<Rightarrow> nat \<Rightarrow> note_section list \<Rightarrow> bool" where
  "keepsSection h i merged \<longleftrightarrow>
     i < length merged \<and> heading (merged ! i) = h \<and> headStable (bullets (merged ! i))"

text \<open>
  Concrete documents, states and events for the examples.
\<close>

definition doubleMarkerNotes :: json where
  "doubleMarkerNotes = JObj [(js ''sections'', JArr [JObj [(js ''heading'', JStr (js ''Cells'')),
      (js ''bullets'', JArr [JStr (js ''1. 2. hello world'')])]])]"

definition plainNotes :: json where
  "plainNotes = JObj [(js ''title'', JStr (js '' Bio '')), (js ''sections'', JArr [JObj [(js ''heading'', JStr (js ''Cells ::'')),
      (js ''bullets'', JArr [JStr (js ''- membranes are thin'')])]])]"

text \<open>
  A task that leaves the stores, the side panel, the time stamp, the call log and the
  console alone.
\<close>

definition readOnly :: "'a task \<Rightarrow> bool" where
  "readOnly m \<longleftrightarrow>
     (\<forall>s r s'. m s = (r, s') \<longrightarrow>
        sessionNotes s' = sessionNotes s \<and> localSettings s' = localSettings s \<and>
        sidePanel s' = sidePanel s \<and> lastLlmCallAt s' = lastLlmCallAt s \<and>
        modelCalls s' = modelCalls s \<and> consoleErrors s' = consoleErrors s)"

text \<open>
  A task that writes neither the session store nor the side panel.
\<close>

definition quiet :: "'a task \<Rightarrow> bool" where
  "quiet m \<longleftrightarrow>
     (\<forall>s r s'. m s = (r, s') \<longrightarrow>
        sessionNotes s' = sessionNotes s \<and> sidePanel s' = sidePanel s)"

text \<open>
  A task that, started at or after \<open>t\<close>, ends at or after \<open>t\<close>,
  keeps the time stamp of the rate limit and starts every provider call at or after
  \<open>t\<close>.
\<close>

definition timed :: "int \<Rightarrow> 'a task \<Rightarrow> bool" where
  "timed t m \<longleftrightarrow>
     (\<forall>s r s'. m s = (r, s') \<longrightarrow> t \<le> clock s \<longrightarrow>
        t \<le> clock s' \<and> lastLlmCallAt s' = lastLlmCallAt s \<and>
        (\<exists>new. modelCalls s' = modelCalls s @ new \<and> (\<forall>c \<in> set new. t \<le> fst (snd c))))"

text \<open>
  A task that enters in the log of thrown errors the error it ends with, and nothing
  when it returns.
\<close>

definition tracked :: "'a task \<Rightarrow> bool" where
  "tracked m \<longleftrightarrow>
     (\<forall>s r s'. m s = (r, s') \<longrightarrow>
        (case r of Inl e \<Rightarrow> thrown s' = thrown s @ [e] | Inr x \<Rightarrow> thrown s' = thrown s))"

definition quietEnv :: environment where
  "quietEnv = \<lparr>failure = (\<lambda>k. None), payload = (\<lambda>k. []), elapsed = (\<lambda>k. 0),
     selfKeys = (\<lambda>p. JUndefined), JSON_parse = (\<lambda>t. None), toISOString = (\<lambda>t. js ''now'')\<rparr>"

definition freshWorker :: sw_state where
  "freshWorker = \<lparr>sessionNotes = JUndefined, localSettings = JUndefined, lastLlmCallAt = 0,
     clock = 10000, opCount = 0, sidePanel = [], consoleErrors = [], modelCalls = [],
     thrown = []\<rparr>"

definition osmosisChunk :: finalized_chunk where
  "osmosisChunk = \<lparr>chunkId = js ''chunk_1'', tStart = 0, tEnd = 5, chunkText = js ''osmosis moves water''\<rparr>"

definition enabledNoKey :: json where
  "enabledNoKey = JObj [(js ''aiNotesEnabled'', JBool True)]"

definition enabledWithKey :: json where
  "enabledWithKey = JObj [(js ''aiNotesEnabled'', JBool True),
     (js ''keys'', JObj [(js ''gemini'', JStr (js ''k1''))])]"

definition mergeFailsEnv :: environment where
  "mergeFailsEnv = quietEnv\<lparr>
     failure := (\<lambda>k. if k = 4 then Some (js ''HTTP 500'') else None),
     payload := (\<lambda>k. if k = 2 then js ''gemini-2.0-flash'' else if k = 3 then js ''Cells divide.'' else []),
     elapsed := (\<lambda>k. if k = 3 then 300 else if k = 4 then 100 else 0)\<rparr>"

definition cellsSection :: note_section where
  "cellsSection = \<lparr>heading = js ''Cells'', bullets = [js ''membranes are thin'']\<rparr>"

definition emptySectionNotes :: json where
  "emptySectionNotes = JObj [(js ''sections'', JArr [JObj [(js ''heading'', JStr (js ''Cell Biology'')),
      (js ''bullets'', JArr [])]])]"

definition nucleusCandidate :: json where
  "nucleusCandidate = JObj [(js ''sections'', JArr [JObj [(js ''heading'', JStr (js ''Cells'')),
      (js ''bullets'', JArr [JStr (js ''the nucleus holds DNA'')])]])]"

definition playing :: video where
  "playing = \<lparr>currentTime = 12, paused = False, ended = False\<rparr>"

definition capturingIdle :: content_state where
  "capturingIdle = \<lparr>isCapturing = True, captionElement = True, transcriptBuffer = [],
     currentChunk = None, chunkStartWallTime = None, lastCaptionUpdateAt = 0, sent = []\<rparr>"

definition firstCaption :: caption_event where
  "firstCaption = \<lparr>textContent = js ''the cell membrane is'', now = 1000, videoElement = Some playing,
     newChunkId = js ''chunk_1000_abc'', chunkNow = 1000\<rparr>"

definition grownCaption :: caption_event where
  "grownCaption = \<lparr>textContent = js ''the cell membrane is semi-permeable'', now = 2000,
     videoElement = Some (playing\<lparr>currentTime := 13\<rparr>), newChunkId = js ''chunk_2000_def'', chunkNow = 2000\<rparr>"

definition afterFinalize :: content_state where
  "afterFinalize = \<lparr>isCapturing = True, captionElement = True,
     transcriptBuffer = [\<lparr>entryText = js ''the cell membrane is'', startTime = 12, endTime = 12,
        entryTStart = 12, entryTEnd = 12, timestamp = 1000\<rparr>],
     currentChunk = None, chunkStartWallTime = None, lastCaptionUpdateAt = 1000, sent = []\<rparr>"

definition openChunk :: in_progress_chunk where
  "openChunk = \<lparr>chunkId = js ''chunk_1000_abc'', tStart = 12, tEnd = 12,
     chunkText = js ''osmosis moves water'', parts = [js ''osmosis moves water'']\<rparr>"

definition openChunkState :: content_state where
  "openChunkState = \<lparr>isCapturing = True, captionElement = True,
     transcriptBuffer = [\<lparr>entryText = js ''osmosis moves water'', startTime = 12, endTime = 12,
        entryTStart = 12, entryTEnd = 12, timestamp = 1000\<rparr>],
     currentChunk = Some openChunk, chunkStartWallTime = Some 1000, lastCaptionUpdateAt = 1000, sent = []\<rparr>"

definition keyedWorker :: sw_state where
  "keyedWorker = freshWorker\<lparr>localSettings := enabledWithKey\<rparr>"

definition twoTasks :: "(finalized_chunk option \<times> jsstring) list" where
  "twoTasks = [(Some osmosisChunk, []), (Some osmosisChunk, [])]"

definition waitingWorker :: sw_state where
  "waitingWorker = freshWorker\<lparr>localSettings := enabledWithKey, lastLlmCallAt := 8000\<rparr>"

definition cleanFailsEnv :: environment where
  "cleanFailsEnv = quietEnv\<lparr>
     failure := (\<lambda>k. if k = 4 then Some (js ''HTTP 429'') else None),
     payload := (\<lambda>k. if k = 3 then js ''gemini-2.0-flash'' else []),
     elapsed := (\<lambda>k. if k = 4 then 250 else 0)\<rparr>"

section \<open>Properties\<close>

subsection \<open>Strings in normal form\<close>

lemma isWs_32: "isWs 32" by (simp add: isWs_def)

lemma wsNormal_collapseFrom: "wsNormal b (collapseFrom b s)"
  by (induction s arbitrary: b) (auto simp: isWs_32)

lemma wsNormal_fix: "wsNormal b s \<Longrightarrow> collapseFrom b s = s"
  by (induction s arbitrary: b) (auto split: if_splits)

lemma wsNormal_weaken: "wsNormal b s \<Longrightarrow> wsNormal False s"
  by (cases s) (auto split: if_splits)

lemma wsNormal_suffix: "wsNormal b (xs @ ys) \<Longrightarrow> wsNormal False ys"
  by (induction xs arbitrary: b) (auto split: if_splits intro: wsNormal_weaken)

lemma wsNormal_prefix: "wsNormal b (xs @ ys) \<Longrightarrow> wsNormal b xs"
  by (induction xs arbitrary: b) (auto split: if_splits)

lemma wsNormal_dropWhile: "wsNormal b s \<Longrightarrow> wsNormal False (dropWhile P s)"
  using wsNormal_suffix [of b "takeWhile P s" "dropWhile P s"] by simp

lemma rev_dropWhile_rev_decomp: "rev (dropWhile P (rev s)) @ rev (takeWhile P (rev s)) = s"
  by (metis rev_append rev_rev_ident takeWhile_dropWhile_id)

lemma wsNormal_dropEnd: "wsNormal b s \<Longrightarrow> wsNormal b (rev (dropWhile P (rev s)))"
  using wsNormal_prefix [of b "rev (dropWhile P (rev s))" "rev (takeWhile P (rev s))"]
  by (simp add: rev_dropWhile_rev_decomp)

lemma wsNormal_trim: "wsNormal b s \<Longrightarrow> wsNormal False (trim s)"
  unfolding trim_def by (intro wsNormal_dropEnd wsNormal_dropWhile)

lemma collapseWs_fix: "wsNormal False s \<Longrightarrow> collapseWs s = s"
  by (simp add: collapseWs_def wsNormal_fix)

lemma wsNormal_collapseWs: "wsNormal False (collapseWs s)"
  by (simp add: collapseWs_def wsNormal_collapseFrom)

lemma dropEnd_last: "rev (dropWhile P (rev s)) = t \<Longrightarrow> t \<noteq> [] \<Longrightarrow> \<not> P (last t)"
  by (metis hd_dropWhile last_rev rev_is_Nil_conv rev_rev_ident)

lemma dropEnd_fix: "s = [] \<or> \<not> P (last s) \<Longrightarrow> rev (dropWhile P (rev s)) = s"
  by (cases "rev s") (auto simp: last_rev)

lemma dropWhile_fix: "s = [] \<or> \<not> P (hd s) \<Longrightarrow> dropWhile P s = s"
  by (cases s) auto

lemma dropEnd_hd: "rev (dropWhile P (rev s)) \<noteq> [] \<Longrightarrow> hd (rev (dropWhile P (rev s))) = hd s"
  by (metis hd_append2 rev_dropWhile_rev_decomp)

lemma dropWhile_last: "dropWhile P s \<noteq> [] \<Longrightarrow> last (dropWhile P s) = last s"
  by (metis last_appendR takeWhile_dropWhile_id)

lemma cleanEnds_trim: "cleanEnds (trim s)"
proof (cases "trim s = []")
  case True then show ?thesis by (simp add: cleanEnds_def)
next
  case False
  have l: "\<not> isWs (last (trim s))" using False dropEnd_last [of isWs "dropWhile isWs s" "trim s"]
    by (simp add: trim_def)
  have "hd (trim s) = hd (dropWhile isWs s)" using False dropEnd_hd [of isWs "dropWhile isWs s"]
    by (simp add: trim_def)
  moreover have "dropWhile isWs s \<noteq> []" using False by (cases "dropWhile isWs s") (simp_all add: trim_def)
  ultimately have "\<not> isWs (hd (trim s))" by (simp add: hd_dropWhile)
  with l show ?thesis by (simp add: cleanEnds_def)
qed

lemma trim_fix: "cleanEnds s \<Longrightarrow> trim s = s"
  unfolding cleanEnds_def trim_def by (auto simp: dropWhile_fix dropEnd_fix)

lemma trim_idem: "trim (trim s) = trim s"
  by (rule trim_fix [OF cleanEnds_trim])

subsection \<open>Sanitizing is idempotent on headings, and on bullets without a second marker\<close>

lemma isWs_tail: "isWs c \<Longrightarrow> isHeadingTail c"
  by (simp add: isHeadingTail_def)

lemma sanitizeHeading_str_cases:
  "sanitizeHeading (JStr s) = [] \<or>
   (sanitizeHeading (JStr s) = trim (stripHeadingTail (collapseWs s)) \<and>
    3 \<le> length (trim (stripHeadingTail (collapseWs s))))"
  by (auto simp: sanitizeHeading_def Let_def)

lemma sanitizeHeading_Nil: "sanitizeHeading (JStr []) = []"
  by (simp add: sanitizeHeading_def trim_def stripHeadingTail_def collapseWs_def)

lemma heading_clean_fix:
  assumes n: "wsNormal False r" and e: "cleanEnds r" and t: "r = [] \<or> \<not> isHeadingTail (last r)"
  shows "trim (stripHeadingTail (collapseWs r)) = r"
proof -
  have "collapseWs r = r" using n by (rule collapseWs_fix)
  moreover have "stripHeadingTail r = r" unfolding stripHeadingTail_def using t by (rule dropEnd_fix)
  moreover have "trim r = r" using e by (rule trim_fix)
  ultimately show ?thesis by simp
qed

lemma heading_clean_props:
  fixes s :: jsstring
  defines "r \<equiv> trim (stripHeadingTail (collapseWs s))"
  shows "wsNormal False r" and "cleanEnds r" and "r = [] \<or> \<not> isHeadingTail (last r)"
proof -
  let ?u = "stripHeadingTail (collapseWs s)"
  have nu: "wsNormal False ?u"
    unfolding stripHeadingTail_def by (rule wsNormal_dropEnd [OF wsNormal_collapseWs])
  show "wsNormal False r" unfolding r_def by (rule wsNormal_trim [OF nu])
  show "cleanEnds r" unfolding r_def by (rule cleanEnds_trim)
  have lu: "?u = [] \<or> \<not> isHeadingTail (last ?u)"
    using dropEnd_last [of isHeadingTail "collapseWs s" ?u] by (auto simp: stripHeadingTail_def)
  show "r = [] \<or> \<not> isHeadingTail (last r)"
  proof (cases "?u = []")
    case True then show ?thesis by (simp add: r_def trim_def)
  next
    case False
    with lu have l: "\<not> isHeadingTail (last ?u)" by simp
    then have "\<not> isWs (last ?u)" using isWs_tail by blast
    then have w: "dropWhile isWs ?u \<noteq> []" using False
      by (metis dropWhile_eq_Nil_conv last_in_set)
    have "\<not> isWs (last (dropWhile isWs ?u))" using \<open>\<not> isWs (last ?u)\<close> w by (simp add: dropWhile_last)
    then have "r = dropWhile isWs ?u" unfolding r_def trim_def by (simp add: dropEnd_fix)
    then show ?thesis using l w by (simp add: dropWhile_last)
  qed
qed

lemma sanitizeHeading_idem: "sanitizeHeading (JStr (sanitizeHeading v)) = sanitizeHeading v"
proof (cases v)
  case (JStr s)
  let ?r = "trim (stripHeadingTail (collapseWs s))"
  from sanitizeHeading_str_cases [of s] show ?thesis
  proof
    assume "sanitizeHeading (JStr s) = []"
    then show ?thesis using JStr by (simp add: sanitizeHeading_Nil)
  next
    assume a: "sanitizeHeading (JStr s) = ?r \<and> 3 \<le> length ?r"
    have "trim (stripHeadingTail (collapseWs ?r)) = ?r"
      by (rule heading_clean_fix [OF heading_clean_props])
    then have "sanitizeHeading (JStr ?r) = ?r" using a
      by (auto simp: sanitizeHeading_def Let_def)
    then show ?thesis using a JStr by simp
  qed
qed (simp_all add: sanitizeHeading_def trim_def stripHeadingTail_def collapseWs_def)

lemma sanitizeBullet_Nil: "sanitizeBullet (JStr []) = []"
  by (simp add: sanitizeBullet_def trim_def stripBulletLead_def collapseWs_def)

lemma wsNormal_stripBulletLead: "wsNormal False s \<Longrightarrow> wsNormal False (stripBulletLead s)"
proof -
  assume n: "wsNormal False s"
  show ?thesis
  proof (cases "dropWhile isWs s")
    case Nil show ?thesis unfolding stripBulletLead_def Nil using n by simp
  next
    case (Cons c cs)
    have "wsNormal False (c # cs)" using wsNormal_dropWhile [OF n, of isWs] Cons by simp
    then have "wsNormal False cs" using wsNormal_suffix [of False "[c]" cs] by simp
    then have "wsNormal False (dropWhile isWs (dropWhile isBulletGlyph cs))"
      by (blast intro: wsNormal_dropWhile)
    with n show ?thesis unfolding stripBulletLead_def Cons by simp
  qed
qed

lemma stripBulletLead_fix:
  "cleanEnds r \<Longrightarrow> \<not> startsWithGlyph r \<Longrightarrow> stripBulletLead r = r"
  by (cases r) (auto simp: stripBulletLead_def cleanEnds_def startsWithGlyph_def)

lemma sanitizeBullet_fix:
  assumes g: "\<not> startsWithGlyph (sanitizeBullet v)"
  shows "sanitizeBullet (JStr (sanitizeBullet v)) = sanitizeBullet v"
proof (cases v)
  case (JStr s)
  let ?r = "trim (stripBulletLead (trim (collapseWs s)))"
  show ?thesis
  proof (cases "sanitizeBullet v = []")
    case True then show ?thesis by (simp add: sanitizeBullet_Nil)
  next
    case False
    then have r: "sanitizeBullet v = ?r" and nb: "\<not> bannedNoteContent ?r" and len: "\<not> length ?r < 8"
      using JStr by (auto simp: sanitizeBullet_def Let_def split: if_splits)
    have n: "wsNormal False ?r"
      by (rule wsNormal_trim [OF wsNormal_stripBulletLead [OF wsNormal_trim [OF wsNormal_collapseWs]]])
    have e: "cleanEnds ?r" by (rule cleanEnds_trim)
    have "collapseWs ?r = ?r" using n by (rule collapseWs_fix)
    moreover have "trim ?r = ?r" using e by (rule trim_fix)
    moreover have "stripBulletLead ?r = ?r" using e g r by (simp add: stripBulletLead_fix)
    ultimately have "sanitizeBullet (JStr ?r) = ?r" using nb len
      by (simp add: sanitizeBullet_def Let_def)
    then show ?thesis using r by simp
  qed
qed (simp_all add: sanitizeBullet_def trim_def stripBulletLead_def collapseWs_def)

subsection \<open>Normalizing a normalized document\<close>

lemma nonBlank_optJson: "nonBlank (optJson (nonBlank v)) = nonBlank v"
  by (cases v) (simp_all add: nonBlank_def optJson_def trim_idem)

lemma nonBlank_optJson_None: "nonBlank (optJson None) = None"
  by (simp add: nonBlank_def optJson_def)

lemma getProp_notesJson:
  "getProp (notesJson n) ''title'' = optJson (title n)"
  "getProp (notesJson n) ''sections'' = JArr (map sectionJson (sections n))"
  "getProp (notesJson n) ''lastUpdatedAt'' = optJson (lastUpdatedAt n)"
  "getProp (notesJson n) ''lastChunkId'' = optJson (lastChunkId n)"
  "getProp (notesJson n) ''lastUpdatedChunkId'' = JUndefined"
  by (simp_all add: notesJson_def js_def)

lemma andProp_sectionJson:
  "andProp (sectionJson s) ''heading'' = JStr (heading s)"
  "andProp (sectionJson s) ''bullets'' = JArr (map JStr (bullets s))"
  by (simp_all add: sectionJson_def andProp_def js_def)

lemma normalizeSection_normal: "set (normalizeSection v) \<subseteq> Collect normalSection"
  by (auto simp: normalizeSection_def normalSection_def Let_def split: json.splits)

lemma normalizeSection_sectionJson:
  assumes "normalSection s"
  shows "normalizeSection (sectionJson s) = [resanitized s]"
proof -
  have "sanitizeHeading (JStr (heading s)) = heading s"
    using assms sanitizeHeading_idem by (auto simp: normalSection_def)
  then show ?thesis using assms
    by (simp add: normalizeSection_def andProp_sectionJson resanitized_def normalSection_def comp_def)
qed

lemma normalize_sections_again:
  "\<forall>s \<in> set ss. normalSection s \<Longrightarrow>
   concat (map normalizeSection (map sectionJson ss)) = map resanitized ss"
  by (induction ss) (simp_all add: normalizeSection_sectionJson)

lemma resanitized_fix:
  assumes "normalSection s" and "\<forall>b \<in> set (bullets s). \<not> startsWithGlyph b"
  shows "resanitized s = s"
proof -
  have "\<forall>b \<in> set (bullets s). sanitizeBullet (JStr b) = b \<and> b \<noteq> []"
    using assms sanitizeBullet_fix by (fastforce simp: normalSection_def)
  then have "filter (\<lambda>b. b \<noteq> []) (map (\<lambda>b. sanitizeBullet (JStr b)) (bullets s)) = bullets s"
    by (induction "bullets s") (simp_all add: filter_id_conv map_idI)
  then show ?thesis by (simp add: resanitized_def)
qed

lemma normalizeNotesState_sections_normal:
  "\<forall>s \<in> set (sections (normalizeNotesState x)). normalSection s"
proof
  fix s assume a: "s \<in> set (sections (normalizeNotesState x))"
  then have "s \<in> set (take MAX_SECTIONS (concat (map normalizeSection (sourceSections x))))"
    by (simp add: normalizeNotesState_def defaultNotesState_def split: if_splits)
  then have "s \<in> set (concat (map normalizeSection (sourceSections x)))"
    by (rule in_set_takeD)
  then obtain y where "s \<in> set (normalizeSection y)" by auto
  then show "normalSection s" using normalizeSection_normal by blast
qed

lemma normalizeNotesState_options:
  "\<exists>v. title (normalizeNotesState x) = nonBlank v"
  "\<exists>v. lastUpdatedAt (normalizeNotesState x) = nonBlank v"
  "\<exists>v. lastChunkId (normalizeNotesState x) = nonBlank v"
proof -
  have n: "None = nonBlank JNull" by (simp add: nonBlank_def)
  show "\<exists>v. title (normalizeNotesState x) = nonBlank v"
    using n by (auto simp: normalizeNotesState_def defaultNotesState_def)
  show "\<exists>v. lastUpdatedAt (normalizeNotesState x) = nonBlank v"
    using n by (auto simp: normalizeNotesState_def defaultNotesState_def)
  show "\<exists>v. lastChunkId (normalizeNotesState x) = nonBlank v"
  proof (cases "\<not> truthy x \<or> \<not> isObject x")
    case True
    then show ?thesis using n by (auto simp: normalizeNotesState_def defaultNotesState_def)
  next
    case False
    show ?thesis
    proof (cases "nonBlank (getProp x ''lastChunkId'')")
      case None
      then have "lastChunkId (normalizeNotesState x) = nonBlank (getProp x ''lastUpdatedChunkId'')"
        using False by (simp add: normalizeNotesState_def)
      then show ?thesis by blast
    next
      case (Some t)
      then have "lastChunkId (normalizeNotesState x) = nonBlank (getProp x ''lastChunkId'')"
        using False by (simp add: normalizeNotesState_def)
      then show ?thesis by blast
    qed
  qed
qed

lemma length_sections_normalize: "length (sections (normalizeNotesState x)) \<le> MAX_SECTIONS"
  by (simp add: normalizeNotesState_def defaultNotesState_def)

lemma normalize_again:
  "normalizeNotesState (notesJson (normalizeNotesState x)) =
   (normalizeNotesState x)\<lparr>sections := map resanitized (sections (normalizeNotesState x))\<rparr>"
proof -
  let ?n = "normalizeNotesState x"
  have obj: "truthy (notesJson ?n)" "isObject (notesJson ?n)" by (simp_all add: notesJson_def)
  have src: "sourceSections (notesJson ?n) = map sectionJson (sections ?n)"
    by (simp add: sourceSections_def getProp_notesJson)
  have secs: "concat (map normalizeSection (sourceSections (notesJson ?n))) = map resanitized (sections ?n)"
    unfolding src by (rule normalize_sections_again [OF normalizeNotesState_sections_normal])
  have len: "take MAX_SECTIONS (map resanitized (sections ?n)) = map resanitized (sections ?n)"
    using length_sections_normalize [of x] by simp
  have t: "nonBlank (optJson (title ?n)) = title ?n"
    using normalizeNotesState_options(1) [of x] nonBlank_optJson by auto
  have u: "nonBlank (optJson (lastUpdatedAt ?n)) = lastUpdatedAt ?n"
    using normalizeNotesState_options(2) [of x] nonBlank_optJson by auto
  have c: "nonBlank (optJson (lastChunkId ?n)) = lastChunkId ?n"
    using normalizeNotesState_options(3) [of x] nonBlank_optJson by auto
  have "normalizeNotesState (notesJson ?n) =
     \<lparr>title = title ?n, sections = map resanitized (sections ?n),
      lastUpdatedAt = lastUpdatedAt ?n, lastChunkId = lastChunkId ?n\<rparr>"
    unfolding normalizeNotesState_def [of "notesJson ?n"]
    using obj by (simp add: getProp_notesJson secs len t u c nonBlank_def [of JUndefined] split: option.splits)
  then show ?thesis by simp
qed

text \<open>
  Claim C1 (amended). Normalizing a normalized notes document again leaves the title,
  the time stamp, the last chunk identifier and the sequence of section headings as they
  are, for every input value. The whole document is unchanged whenever no bullet of the
  normalized document begins with one of the glyphs \<^verbatim>\<open>- * U+2022 0-9 . )\<close>: a bullet
  that still begins with such a glyph loses another leading run each time it is
  sanitized, since the pattern removes one run only.
\<close>

theorem normalizeNotesState_idempotent:
  "title (normalizeNotesState (notesJson (normalizeNotesState x))) = title (normalizeNotesState x) \<and>
   lastUpdatedAt (normalizeNotesState (notesJson (normalizeNotesState x))) = lastUpdatedAt (normalizeNotesState x) \<and>
   lastChunkId (normalizeNotesState (notesJson (normalizeNotesState x))) = lastChunkId (normalizeNotesState x) \<and>
   map heading (sections (normalizeNotesState (notesJson (normalizeNotesState x)))) =
     map heading (sections (normalizeNotesState x)) \<and>
   ((\<forall>s \<in> set (sections (normalizeNotesState x)). \<forall>b \<in> set (bullets s). \<not> startsWithGlyph b) \<longrightarrow>
      normalizeNotesState (notesJson (normalizeNotesState x)) = normalizeNotesState x)"
proof -
  let ?n = "normalizeNotesState x"
  have h: "map heading (map resanitized (sections ?n)) = map heading (sections ?n)"
    by (simp add: resanitized_def comp_def)
  have "map resanitized (sections ?n) = sections ?n"
    if "\<forall>s \<in> set (sections ?n). \<forall>b \<in> set (bullets s). \<not> startsWithGlyph b"
    using that normalizeNotesState_sections_normal [of x] by (simp add: map_idI resanitized_fix)
  then show ?thesis unfolding normalize_again using h by simp
qed

subsection \<open>Near-duplicate bullets\<close>

lemma semanticTextKey_Nil: "semanticTextKey [] = []"
  by (simp add: semanticTextKey_def lowerKeyText_def tokensBy_def)

lemma tokenSetSimilarity_Nil: "tokenSetSimilarity [] b = 0" "tokenSetSimilarity a [] = 0"
  by (simp_all add: tokenSetSimilarity_def tokensBy_def)

lemma includesStr_refl: "includesStr s s"
  by (cases s) simp_all

text \<open>
  Claim C5 (amended). Two bullet texts whose canonical keys have token-set similarity of
  at least 0.82 are near-duplicates. Two texts whose keys have a similarity below 0.82
  are not near-duplicates provided that neither key contains the other (equal keys
  included): containment makes two texts near-duplicates whatever their similarity.
\<close>

theorem isNearDuplicateText_threshold:
  "(tokenSetSimilarity (semanticTextKey a) (semanticTextKey b) \<ge> 82 / 100 \<longrightarrow>
      isNearDuplicateText a b) \<and>
   (tokenSetSimilarity (semanticTextKey a) (semanticTextKey b) < 82 / 100 \<and>
    \<not> includesStr (semanticTextKey a) (semanticTextKey b) \<and>
    \<not> includesStr (semanticTextKey b) (semanticTextKey a) \<longrightarrow>
      \<not> isNearDuplicateText a b)"
proof (intro conjI impI)
  assume h: "tokenSetSimilarity (semanticTextKey a) (semanticTextKey b) \<ge> 82 / 100"
  have ka: "semanticTextKey a \<noteq> []" using h tokenSetSimilarity_Nil(1) [of "semanticTextKey b"]
    by (cases "semanticTextKey a = []") simp_all
  have kb: "semanticTextKey b \<noteq> []" using h tokenSetSimilarity_Nil(2) [of "semanticTextKey a"]
    by (cases "semanticTextKey b = []") simp_all
  have "a \<noteq> []" "b \<noteq> []" using ka kb semanticTextKey_Nil by auto
  then show "isNearDuplicateText a b" using ka kb h
    by (simp add: isNearDuplicateText_def Let_def)
next
  assume h: "tokenSetSimilarity (semanticTextKey a) (semanticTextKey b) < 82 / 100 \<and>
    \<not> includesStr (semanticTextKey a) (semanticTextKey b) \<and>
    \<not> includesStr (semanticTextKey b) (semanticTextKey a)"
  then have "semanticTextKey a \<noteq> semanticTextKey b" using includesStr_refl by metis
  then show "\<not> isNearDuplicateText a b" using h
    by (simp add: isNearDuplicateText_def Let_def)
qed

subsection \<open>Caps of the quality merge\<close>

lemma length_sliceLast: "length (sliceLast n xs) \<le> n"
  by (simp add: sliceLast_def)

text \<open>
  Claim C3. Whatever the previous and the candidate document are, the merged document
  has at most 30 sections and every section has at most 80 bullets; the bullets of each
  section are the last 80 (or all, when there are fewer) of the de-duplicated bullet list
  of a section of the merge.
\<close>

theorem enforceCumulativeQuality_caps:
  "length (sections (enforceCumulativeQuality previousNotes candidateNotes)) \<le> 30 \<and>
   (\<forall>s \<in> set (sections (enforceCumulativeQuality previousNotes candidateNotes)).
      length (bullets s) \<le> 80 \<and>
      (\<exists>m \<in> set (mergedSections previousNotes candidateNotes).
         heading s = sanitizeHeading (JStr (heading m)) \<and>
         bullets s = drop (length (dedupeBullets (bullets m)) - 80) (dedupeBullets (bullets m))))"
proof (intro conjI ballI)
  show "length (sections (enforceCumulativeQuality previousNotes candidateNotes)) \<le> 30"
    by (simp add: enforceCumulativeQuality_def Let_def MAX_SECTIONS_def)
next
  fix s assume "s \<in> set (sections (enforceCumulativeQuality previousNotes candidateNotes))"
  then have "s \<in> set (map capSection (mergedSections previousNotes candidateNotes))"
    by (auto simp: enforceCumulativeQuality_def Let_def dest!: in_set_takeD)
  then obtain m where m: "m \<in> set (mergedSections previousNotes candidateNotes)" and s: "s = capSection m"
    by auto
  have h: "heading s = sanitizeHeading (JStr (heading m))" using s by (simp add: capSection_def)
  have b: "bullets s = drop (length (dedupeBullets (bullets m)) - 80) (dedupeBullets (bullets m))"
    using s by (simp add: capSection_def sliceLast_def MAX_BULLETS_PER_SECTION_def)
  show "length (bullets s) \<le> 80" unfolding b by simp
  show "\<exists>m \<in> set (mergedSections previousNotes candidateNotes).
         heading s = sanitizeHeading (JStr (heading m)) \<and>
         bullets s = drop (length (dedupeBullets (bullets m)) - 80) (dedupeBullets (bullets m))"
    using m h b by blast
qed

subsection \<open>Sections that the quality merge keeps\<close>

lemma dedupeInto_prefix: "prefix out (dedupeInto out xs)"
proof (induction xs arbitrary: out)
  case Nil show ?case by simp
next
  case (Cons x xs)
  have "prefix out (dedupeInto (out @ [sanitizeBullet (JStr x)]) xs)"
    using Cons [of "out @ [sanitizeBullet (JStr x)]"] by (meson append_prefixD)
  then show ?case using Cons [of out] by (simp add: Let_def)
qed

lemma headStable_dedupe: "headStable bs \<Longrightarrow> headStable (dedupeBullets (bs @ extra))"
proof -
  assume h: "headStable bs"
  then obtain b rest where bs: "bs = b # rest" by (cases bs) (auto simp: headStable_def)
  have b: "b \<noteq> []" "sanitizeBullet (JStr b) = b" using h bs by (simp_all add: headStable_def)
  have "dedupeBullets (bs @ extra) = dedupeInto [b] (rest @ extra)"
    using b by (simp add: dedupeBullets_def bs Let_def)
  moreover have "prefix [b] (dedupeInto [b] (rest @ extra))" by (rule dedupeInto_prefix)
  ultimately obtain ys where "dedupeBullets (bs @ extra) = b # ys" by (auto simp: prefix_def)
  then show ?thesis using b by (simp add: headStable_def)
qed

lemma headStable_dedupe0: "headStable bs \<Longrightarrow> headStable (dedupeBullets bs)"
  using headStable_dedupe [of bs "[]"] by simp

lemma keepsSection_mergeIncoming:
  assumes "keepsSection h i merged"
  shows "keepsSection h i (mergeIncoming merged incoming)"
proof -
  have upd: "keepsSection h i (merged[j := (merged ! j)\<lparr>bullets := dedupeBullets (bullets (merged ! j) @ extra)\<rparr>])"
    for j extra
  proof (cases "j = i")
    case True
    then show ?thesis using assms by (simp add: keepsSection_def headStable_dedupe)
  next
    case False
    then show ?thesis using assms by (simp add: keepsSection_def)
  qed
  have app: "keepsSection h i (merged @ [x])" for x
    using assms by (simp add: keepsSection_def nth_append)
  show ?thesis
    unfolding mergeIncoming_def Let_def using assms upd app
    by (simp split: option.split)
qed

lemma keepsSection_foldl:
  "keepsSection h i merged \<Longrightarrow> keepsSection h i (foldl mergeIncoming merged cands)"
  by (induction cands arbitrary: merged) (simp_all add: keepsSection_mergeIncoming)

lemma nth_in_take_filter:
  assumes "i < length ys" and "i < n" and "P (ys ! i)"
  shows "ys ! i \<in> set (take n (filter P ys))"
proof -
  have "ys = take i ys @ ys ! i # drop (Suc i) ys" using assms(1) by (rule id_take_nth_drop)
  then have "filter P ys = filter P (take i ys) @ ys ! i # filter P (drop (Suc i) ys)"
    using assms(3) by (metis filter.simps(2) filter_append)
  moreover have "length (filter P (take i ys)) < n"
    using assms(2) length_filter_le [of P "take i ys"] by simp
  ultimately show ?thesis by (auto simp: take_Cons')
qed

lemma sliceLast_nonempty: "xs \<noteq> [] \<Longrightarrow> 0 < n \<Longrightarrow> sliceLast n xs \<noteq> []"
  by (cases xs) (auto simp: sliceLast_def)

text \<open>
  Claim C4 (amended). A section of the normalized previous document appears with its
  heading in the merged document provided that it has at least one bullet and its first
  bullet is left as it is by \<^verbatim>\<open>sanitizeBullet\<close>. The final filter of the merge drops
  every section that ends with no bullet, a section of the previous document included.
\<close>

theorem enforceCumulativeQuality_keeps_sections:
  assumes s: "s \<in> set (sections (normalizeNotesState previousNotes))"
    and ne: "bullets s \<noteq> []"
    and st: "sanitizeBullet (JStr (hd (bullets s))) = hd (bullets s)"
  shows "heading s \<in> set (map heading (sections (enforceCumulativeQuality previousNotes candidateNotes)))"
proof -
  let ?prev = "sections (normalizeNotesState previousNotes)"
  let ?merged = "mergedSections previousNotes candidateNotes"
  let ?ok = "\<lambda>s. heading s \<noteq> [] \<and> bullets s \<noteq> []"
  from s obtain i where i: "i < length ?prev" and si: "?prev ! i = s"
    by (auto simp: in_set_conv_nth)
  have i30: "i < MAX_SECTIONS" using i length_sections_normalize [of previousNotes] by simp
  have norm: "normalSection s" using s normalizeNotesState_sections_normal by blast
  then have "hd (bullets s) \<noteq> []" using ne by (simp add: normalSection_def)
  then have hs: "headStable (bullets s)" using ne st by (simp add: headStable_def)
  have "keepsSection (heading s) i
          (map (\<lambda>s. \<lparr>heading = heading s, bullets = dedupeBullets (bullets s)\<rparr>) ?prev)"
    using i si hs by (simp add: keepsSection_def headStable_dedupe0)
  then have k: "keepsSection (heading s) i ?merged"
    unfolding mergedSections_def Let_def by (rule keepsSection_foldl)
  let ?capped = "map capSection ?merged"
  have len: "i < length ?capped" using k by (simp add: keepsSection_def)
  have hh: "heading (?capped ! i) = heading s"
    using k norm sanitizeHeading_idem by (auto simp: keepsSection_def capSection_def normalSection_def)
  have "dedupeBullets (bullets (?merged ! i)) \<noteq> []"
    using k headStable_dedupe0 by (auto simp: keepsSection_def headStable_def)
  then have bb: "bullets (?capped ! i) \<noteq> []"
    using k by (simp add: keepsSection_def capSection_def sliceLast_nonempty MAX_BULLETS_PER_SECTION_def)
  have "heading (?capped ! i) \<noteq> []" using hh norm by (simp add: normalSection_def)
  then have "?capped ! i \<in> set (take MAX_SECTIONS (filter ?ok ?capped))"
    using len i30 bb by (intro nth_in_take_filter) simp_all
  then have "?capped ! i \<in> set (sections (enforceCumulativeQuality previousNotes candidateNotes))"
    by (simp add: enforceCumulativeQuality_def Let_def)
  then show ?thesis using hh by (metis image_eqI set_map)
qed

subsection \<open>Normalization and similarity at concrete inputs\<close>

lemmas str_eval = js_def isWs_def trim_def collapseWs_def startsWith_def tokensBy_def
  lowerKeyChar_def lowerKeyText_def lowerAscii_def

lemmas sanitize_eval = isHeadingTail_def stripHeadingTail_def sanitizeHeading_def isBulletGlyph_def
  stripBulletLead_def sanitizeBullet_def bannedNoteContent_def BANNED_PHRASES_def

lemmas norm_eval = andProp_def nonBlank_def normalizeSection_def sourceSections_def
  normalizeNotesState_def defaultNotesState_def MAX_SECTIONS_def optJson_def sectionJson_def notesJson_def

lemmas key_eval = semanticTextKey_def canonicalHeading_def STOPWORDS_def tokenSetSimilarity_def
  isNearDuplicateText_def dedupeBullets_def isUsefulHeading_def findMatchingSectionIndex_def
  mergeIncoming_def mergedSections_def capSection_def sliceLast_def orElse_def
  enforceCumulativeQuality_def MAX_BULLETS_PER_SECTION_def

lemma normalize_doubleMarkerNotes: "normalizeNotesState doubleMarkerNotes =
   \<lparr>title = None, sections = [\<lparr>heading = js ''Cells'', bullets = [js ''2. hello world'']\<rparr>], lastUpdatedAt = None, lastChunkId = None\<rparr>"
  by (simp add: doubleMarkerNotes_def str_eval sanitize_eval norm_eval)

text \<open>
  Claim C1 as stated fails: the bullet \<^verbatim>\<open>1. 2. hello world\<close> is normalized to
  \<^verbatim>\<open>2. hello world\<close>, and normalizing the result gives \<^verbatim>\<open>hello world\<close>.
\<close>

theorem normalizeNotesState_idempotent_counterexample:
  "normalizeNotesState (notesJson (normalizeNotesState doubleMarkerNotes)) \<noteq> normalizeNotesState doubleMarkerNotes"
  by (simp add: doubleMarkerNotes_def str_eval sanitize_eval norm_eval)

lemma normalize_plainNotes: "normalizeNotesState plainNotes =
   \<lparr>title = Some (js ''Bio''), sections = [\<lparr>heading = js ''Cells'', bullets = [js ''membranes are thin'']\<rparr>], lastUpdatedAt = None, lastChunkId = None\<rparr>"
  by (simp add: plainNotes_def str_eval sanitize_eval norm_eval)

text \<open>
  The amended claim C1 at a document whose only bullet, \<^verbatim>\<open>- membranes are thin\<close>, carries
  a single marker.
\<close>

theorem normalizeNotesState_idempotent_witness:
  "bullets (hd (sections (normalizeNotesState plainNotes))) = [js ''membranes are thin''] \<and>
   normalizeNotesState (notesJson (normalizeNotesState plainNotes)) = normalizeNotesState plainNotes"
proof -
  have h: "\<forall>s \<in> set (sections (normalizeNotesState plainNotes)). \<forall>b \<in> set (bullets s). \<not> startsWithGlyph b"
    by (simp add: normalize_plainNotes startsWithGlyph_def js_def isBulletGlyph_def)
  have b: "bullets (hd (sections (normalizeNotesState plainNotes))) = [js ''membranes are thin'']"
    by (simp add: normalize_plainNotes)
  show ?thesis using h b normalizeNotesState_idempotent [of plainNotes] by blast
qed

text \<open>
  Claim C5 as stated fails just below the threshold: a text of eleven words and its
  first nine words have similarity 9/11, below 0.82, and are near-duplicates, because
  the shorter key is contained in the longer one.
\<close>

theorem isNearDuplicateText_threshold_counterexample:
  "tokenSetSimilarity (semanticTextKey (js ''one two three four five six seven eight nine ten eleven''))
      (semanticTextKey (js ''one two three four five six seven eight nine'')) < 82 / 100 \<and>
   isNearDuplicateText (js ''one two three four five six seven eight nine ten eleven'')
      (js ''one two three four five six seven eight nine'')"
  by (simp add: str_eval key_eval)

subsection \<open>The content script\<close>

lemma sendTranscriptUpdate_frame:
  "transcriptBuffer (sendTranscriptUpdate st) = transcriptBuffer st"
  "currentChunk (sendTranscriptUpdate st) = currentChunk st"
  "chunkStartWallTime (sendTranscriptUpdate st) = chunkStartWallTime st"
  "filter isFinalizeMessage (sent (sendTranscriptUpdate st)) = filter isFinalizeMessage (sent st)"
  "set (sent st) \<subseteq> set (sent (sendTranscriptUpdate st))"
  by (auto simp: sendTranscriptUpdate_def isFinalizeMessage_def)

lemma finalizeChunk_buffer: "transcriptBuffer (finalizeChunk ev st) = transcriptBuffer st"
  by (simp add: finalizeChunk_def split: option.split)

lemma maybeFinalizeChunk_buffer: "transcriptBuffer (maybeFinalizeChunk ev n st) = transcriptBuffer st"
  by (simp add: maybeFinalizeChunk_def finalizeChunk_buffer Let_def split: option.split)

lemma finalizeChunk_chunk:
  "currentChunk st = Some c \<Longrightarrow>
   currentChunk (finalizeChunk ev st) = Some c \<and> sent (finalizeChunk ev st) = sent st \<or>
   currentChunk (finalizeChunk ev st) = None \<and>
     sent (finalizeChunk ev st) = sent st @ [FINALIZE_CHUNK (snapshot c) (getTailContext ev st)]"
  by (simp add: finalizeChunk_def)

lemma maybeFinalizeChunk_chunk:
  "currentChunk st = Some c \<Longrightarrow>
   currentChunk (maybeFinalizeChunk ev n st) = Some c \<and> sent (maybeFinalizeChunk ev n st) = sent st \<or>
   currentChunk (maybeFinalizeChunk ev n st) = None \<and>
     sent (maybeFinalizeChunk ev n st) = sent st @ [FINALIZE_CHUNK (snapshot c) (getTailContext ev st)]"
  using finalizeChunk_chunk [of st c ev]
  by (auto simp: maybeFinalizeChunk_def Let_def split: option.split)

lemma maybeFinalizeChunk_none:
  "currentChunk st = None \<Longrightarrow> maybeFinalizeChunk ev n st = st"
  by (simp add: maybeFinalizeChunk_def)

lemma handleCaptionChange_growth:
  assumes "isCapturing st" and "captionElement st"
    and "normalizeText (textContent ev) \<noteq> []"
    and "transcriptBuffer st \<noteq> []"
    and "entryText (last (transcriptBuffer st)) \<noteq> normalizeText (textContent ev)"
    and "startsWith (normalizeText (textContent ev)) (entryText (last (transcriptBuffer st)))"
  shows "handleCaptionChange ev st =
     sendTranscriptUpdate (maybeFinalizeChunk ev (now ev)
       ((replaceLastChunkPart (normalizeText (textContent ev)) (getVideoTime ev)
          (updateLastEntry
             (\<lambda>e. e\<lparr>entryText := normalizeText (textContent ev), endTime := getVideoTime ev,
                     entryTEnd := getVideoTime ev, timestamp := now ev\<rparr>) st))
        \<lparr>lastCaptionUpdateAt := now ev\<rparr>))"
  using assms by (simp add: handleCaptionChange_def Let_def)

lemma replaceLastChunkPart_buffer:
  "transcriptBuffer (replaceLastChunkPart t n st) = transcriptBuffer st"
  by (simp add: replaceLastChunkPart_def split: option.split)

lemma updateLastEntry_chunk: "currentChunk (updateLastEntry f st) = currentChunk st"
  "sent (updateLastEntry f st) = sent st" "chunkStartWallTime (updateLastEntry f st) = chunkStartWallTime st"
  by (simp_all add: updateLastEntry_def)

text \<open>
  Claim C6. For a caption-change event that is processed while capturing (a caption
  element is attached, the normalized text is not empty and differs from the text of the
  last transcript entry, so the event is not dropped as a duplicate): if the normalized
  text starts with the text of the last transcript entry, that entry gets the new text
  and the current video time as its end time, in place, and no entry is appended; and
  when a chunk is in progress, its last part is replaced by the new text, after which the
  chunk is either still in progress or was finalized by this event with that text.
\<close>

theorem prefix_growth_replaces_in_place:
  assumes "isCapturing st" and "captionElement st"
    and "normalizeText (textContent ev) \<noteq> []"
    and "transcriptBuffer st \<noteq> []"
    and "entryText (last (transcriptBuffer st)) \<noteq> normalizeText (textContent ev)"
    and "startsWith (normalizeText (textContent ev)) (entryText (last (transcriptBuffer st)))"
  shows "transcriptBuffer (handleCaptionChange ev st) =
           butlast (transcriptBuffer st) @
             [(last (transcriptBuffer st))
                \<lparr>entryText := normalizeText (textContent ev), endTime := getVideoTime ev,
                 entryTEnd := getVideoTime ev, timestamp := now ev\<rparr>] \<and>
         (\<forall>c. currentChunk st = Some c \<and> parts c \<noteq> [] \<longrightarrow>
            (let c' = c\<lparr>parts := butlast (parts c) @ [normalizeText (textContent ev)],
                         chunkText := joinSp (butlast (parts c) @ [normalizeText (textContent ev)]),
                         tEnd := getVideoTime ev\<rparr>
             in currentChunk (handleCaptionChange ev st) = Some c' \<or>
                currentChunk (handleCaptionChange ev st) = None \<and>
                (\<exists>tailContext. FINALIZE_CHUNK (snapshot c') tailContext
                                  \<in> set (sent (handleCaptionChange ev st)))))"
proof (intro conjI allI impI)
  show "transcriptBuffer (handleCaptionChange ev st) =
           butlast (transcriptBuffer st) @
             [(last (transcriptBuffer st))
                \<lparr>entryText := normalizeText (textContent ev), endTime := getVideoTime ev,
                 entryTEnd := getVideoTime ev, timestamp := now ev\<rparr>]"
    unfolding handleCaptionChange_growth [OF assms]
    using assms(4)
    by (simp add: sendTranscriptUpdate_frame maybeFinalizeChunk_buffer replaceLastChunkPart_buffer
        updateLastEntry_def)
next
  fix c assume c: "currentChunk st = Some c \<and> parts c \<noteq> []"
  let ?text = "normalizeText (textContent ev)"
  let ?c' = "c\<lparr>parts := butlast (parts c) @ [?text],
                chunkText := joinSp (butlast (parts c) @ [?text]), tEnd := getVideoTime ev\<rparr>"
  let ?st2 = "(replaceLastChunkPart ?text (getVideoTime ev)
          (updateLastEntry
             (\<lambda>e. e\<lparr>entryText := ?text, endTime := getVideoTime ev,
                     entryTEnd := getVideoTime ev, timestamp := now ev\<rparr>) st))
        \<lparr>lastCaptionUpdateAt := now ev\<rparr>"
  have "currentChunk ?st2 = Some ?c'"
    using c by (simp add: replaceLastChunkPart_def updateLastEntry_chunk)
  from maybeFinalizeChunk_chunk [OF this, of ev "now ev"]
  have "currentChunk (handleCaptionChange ev st) = Some ?c' \<or>
        currentChunk (handleCaptionChange ev st) = None \<and>
        (\<exists>tailContext. FINALIZE_CHUNK (snapshot ?c') tailContext \<in> set (sent (handleCaptionChange ev st)))"
    unfolding handleCaptionChange_growth [OF assms]
    by (auto simp: sendTranscriptUpdate_def)
  then show "let c' = ?c' in currentChunk (handleCaptionChange ev st) = Some c' \<or>
                currentChunk (handleCaptionChange ev st) = None \<and>
                (\<exists>tailContext. FINALIZE_CHUNK (snapshot c') tailContext
                                  \<in> set (sent (handleCaptionChange ev st)))"
    by (simp add: Let_def)
qed

text \<open>
  Claim C10. When the normalized text of a caption-change event starts with the text of
  the last transcript entry and no chunk is in progress, no chunk is opened and none is
  finalized: the chunk state stays empty, the start time of the chunk stays as it was, no
  finalize message is sent, and the transcript keeps its length with the new text in its
  last entry.
\<close>

theorem prefix_growth_without_chunk:
  assumes "isCapturing st" and "captionElement st"
    and "normalizeText (textContent ev) \<noteq> []"
    and "transcriptBuffer st \<noteq> []"
    and "startsWith (normalizeText (textContent ev)) (entryText (last (transcriptBuffer st)))"
    and "currentChunk st = None"
  shows "currentChunk (handleCaptionChange ev st) = None \<and>
         chunkStartWallTime (handleCaptionChange ev st) = chunkStartWallTime st \<and>
         filter isFinalizeMessage (sent (handleCaptionChange ev st)) = filter isFinalizeMessage (sent st) \<and>
         length (transcriptBuffer (handleCaptionChange ev st)) = length (transcriptBuffer st) \<and>
         entryText (last (transcriptBuffer (handleCaptionChange ev st))) = normalizeText (textContent ev)"
proof (cases "entryText (last (transcriptBuffer st)) = normalizeText (textContent ev)")
  case True
  then have "handleCaptionChange ev st = st" using assms by (simp add: handleCaptionChange_def Let_def)
  then show ?thesis using assms True by simp
next
  case False
  let ?text = "normalizeText (textContent ev)"
  let ?st2 = "(replaceLastChunkPart ?text (getVideoTime ev)
          (updateLastEntry
             (\<lambda>e. e\<lparr>entryText := ?text, endTime := getVideoTime ev,
                     entryTEnd := getVideoTime ev, timestamp := now ev\<rparr>) st))
        \<lparr>lastCaptionUpdateAt := now ev\<rparr>"
  have h: "handleCaptionChange ev st = sendTranscriptUpdate (maybeFinalizeChunk ev (now ev) ?st2)"
    by (rule handleCaptionChange_growth [OF assms(1-4) False assms(5)])
  have n: "currentChunk ?st2 = None"
    using assms(6) by (simp add: replaceLastChunkPart_def updateLastEntry_chunk)
  have m: "maybeFinalizeChunk ev (now ev) ?st2 = ?st2" by (rule maybeFinalizeChunk_none [OF n])
  have r: "replaceLastChunkPart ?text (getVideoTime ev) s = s" if "currentChunk s = None" for s
    using that by (simp add: replaceLastChunkPart_def)
  show ?thesis unfolding h m using assms(4,6)
    by (simp add: sendTranscriptUpdate_frame r updateLastEntry_chunk) (simp add: updateLastEntry_def)
qed

text \<open>
  Claim C7 (amended). A clear-session message resets the chunk in progress, the
  transcript and the capture flag, and sends one transcript update with an empty
  transcript; it sends no finalize message, so the chunk in progress is discarded and
  not finalized.
\<close>

theorem clear_session_discards_chunk:
  "currentChunk (onClearSession st) = None \<and>
   chunkStartWallTime (onClearSession st) = None \<and>
   transcriptBuffer (onClearSession st) = [] \<and>
   \<not> isCapturing (onClearSession st) \<and>
   sent (onClearSession st) = sent st @ [TRANSCRIPT_UPDATE [] None] \<and>
   filter isFinalizeMessage (sent (onClearSession st)) = filter isFinalizeMessage (sent st)"
  by (simp add: onClearSession_def isFinalizeMessage_def)

subsection \<open>The service worker\<close>

lemma andThenE:
  assumes "andThen m f s = (r, s')"
  obtains e where "m s = (Inl e, s')" and "r = Inl e"
  | x s1 where "m s = (Inr x, s1)" and "f x s1 = (r, s')"
  using assms by (auto simp: andThen_def split: prod.splits sum.splits)

lemma tryCatchE:
  assumes "tryCatch m h s = (r, s')"
  obtains e s1 where "m s = (Inl e, s1)" and "h e s1 = (r, s')"
  | x where "m s = (Inr x, s')" and "r = Inr x"
  using assms by (auto simp: tryCatch_def split: prod.splits sum.splits)

lemma readOnly_ret: "readOnly (ret x)" by (simp add: readOnly_def ret_def)

lemma quiet_ret: "quiet (ret x)" by (simp add: quiet_def ret_def)

lemma quiet_throw: "quiet (throw e)" by (simp add: quiet_def throw_def)

lemma timed_ret: "timed t (ret x)" by (simp add: timed_def ret_def)

lemma timed_throw: "timed t (throw e)" by (simp add: timed_def throw_def)

lemma readOnly_external: "readOnly (external env)"
  by (auto simp: readOnly_def external_def Let_def split: option.splits)

lemma quiet_external: "quiet (external env)"
  by (auto simp: quiet_def external_def Let_def split: option.splits)

lemma timed_external: "timed t (external env)"
  by (auto simp: timed_def external_def Let_def split: option.splits)

lemma readOnly_andThen:
  assumes "readOnly m" and "\<And>x. readOnly (f x)"
  shows "readOnly (andThen m f)"
  unfolding readOnly_def
proof (intro allI impI)
  fix s r s' assume a: "andThen m f s = (r, s')"
  from a show "sessionNotes s' = sessionNotes s \<and> localSettings s' = localSettings s \<and>
        sidePanel s' = sidePanel s \<and> lastLlmCallAt s' = lastLlmCallAt s \<and>
        modelCalls s' = modelCalls s \<and> consoleErrors s' = consoleErrors s"
  proof (cases rule: andThenE)
    case (1 e) then show ?thesis using assms(1) by (simp add: readOnly_def)
  next
    case (2 x s1)
    then show ?thesis using assms(1) assms(2) [of x] unfolding readOnly_def by metis
  qed
qed

lemma quiet_andThen:
  assumes "quiet m" and "\<And>x. quiet (f x)"
  shows "quiet (andThen m f)"
  unfolding quiet_def
proof (intro allI impI)
  fix s r s' assume a: "andThen m f s = (r, s')"
  from a show "sessionNotes s' = sessionNotes s \<and> sidePanel s' = sidePanel s"
  proof (cases rule: andThenE)
    case (1 e) then show ?thesis using assms(1) by (simp add: quiet_def)
  next
    case (2 x s1)
    then show ?thesis using assms(1) assms(2) [of x] unfolding quiet_def by metis
  qed
qed

lemma timed_step:
  assumes "timed t m" and "m s = (r, s1)" and "t \<le> clock s"
  shows "t \<le> clock s1" and "lastLlmCallAt s1 = lastLlmCallAt s"
    and "\<exists>new. modelCalls s1 = modelCalls s @ new \<and> (\<forall>c \<in> set new. t \<le> fst (snd c))"
  using assms unfolding timed_def by blast+

lemma timed_compose:
  assumes m: "t \<le> clock s \<longrightarrow> t \<le> clock s1 \<and> lastLlmCallAt s1 = lastLlmCallAt s \<and>
        (\<exists>new. modelCalls s1 = modelCalls s @ new \<and> (\<forall>c \<in> set new. t \<le> fst (snd c)))"
    and f: "t \<le> clock s1 \<longrightarrow> t \<le> clock s' \<and> lastLlmCallAt s' = lastLlmCallAt s1 \<and>
        (\<exists>new. modelCalls s' = modelCalls s1 @ new \<and> (\<forall>c \<in> set new. t \<le> fst (snd c)))"
  shows "t \<le> clock s \<longrightarrow> t \<le> clock s' \<and> lastLlmCallAt s' = lastLlmCallAt s \<and>
        (\<exists>new. modelCalls s' = modelCalls s @ new \<and> (\<forall>c \<in> set new. t \<le> fst (snd c)))"
proof
  assume t: "t \<le> clock s"
  from m t obtain n1 where 1: "t \<le> clock s1" "lastLlmCallAt s1 = lastLlmCallAt s"
    "modelCalls s1 = modelCalls s @ n1" "\<forall>c \<in> set n1. t \<le> fst (snd c)" by blast
  from f 1(1) obtain n2 where 2: "t \<le> clock s'" "lastLlmCallAt s' = lastLlmCallAt s1"
    "modelCalls s' = modelCalls s1 @ n2" "\<forall>c \<in> set n2. t \<le> fst (snd c)" by blast
  have "modelCalls s' = modelCalls s @ (n1 @ n2)" using 1(3) 2(3) by simp
  moreover have "\<forall>c \<in> set (n1 @ n2). t \<le> fst (snd c)" using 1(4) 2(4) by auto
  ultimately show "t \<le> clock s' \<and> lastLlmCallAt s' = lastLlmCallAt s \<and>
        (\<exists>new. modelCalls s' = modelCalls s @ new \<and> (\<forall>c \<in> set new. t \<le> fst (snd c)))"
    using 1(2) 2(1) 2(2) by metis
qed

lemma timed_andThen:
  assumes "timed t m" and "\<And>x. timed t (f x)"
  shows "timed t (andThen m f)"
  unfolding timed_def
proof (intro allI impI)
  fix s r s' assume a: "andThen m f s = (r, s')" and t: "t \<le> clock s"
  from a show "t \<le> clock s' \<and> lastLlmCallAt s' = lastLlmCallAt s \<and>
        (\<exists>new. modelCalls s' = modelCalls s @ new \<and> (\<forall>c \<in> set new. t \<le> fst (snd c)))"
  proof (cases rule: andThenE)
    case (1 e) then show ?thesis using assms(1) t unfolding timed_def by blast
  next
    case (2 x s1)
    have a1: "t \<le> clock s \<longrightarrow> t \<le> clock s1 \<and> lastLlmCallAt s1 = lastLlmCallAt s \<and>
        (\<exists>new. modelCalls s1 = modelCalls s @ new \<and> (\<forall>c \<in> set new. t \<le> fst (snd c)))"
      using assms(1) 2(1) unfolding timed_def by blast
    have a2: "t \<le> clock s1 \<longrightarrow> t \<le> clock s' \<and> lastLlmCallAt s' = lastLlmCallAt s1 \<and>
        (\<exists>new. modelCalls s' = modelCalls s1 @ new \<and> (\<forall>c \<in> set new. t \<le> fst (snd c)))"
      using assms(2) [of x] 2(2) unfolding timed_def by blast
    show ?thesis using timed_compose [OF a1 a2] t by blast
  qed
qed

lemma timed_tryCatch:
  assumes "timed t m" and "\<And>e. timed t (h e)"
  shows "timed t (tryCatch m h)"
  unfolding timed_def
proof (intro allI impI)
  fix s r s' assume a: "tryCatch m h s = (r, s')" and t: "t \<le> clock s"
  from a show "t \<le> clock s' \<and> lastLlmCallAt s' = lastLlmCallAt s \<and>
        (\<exists>new. modelCalls s' = modelCalls s @ new \<and> (\<forall>c \<in> set new. t \<le> fst (snd c)))"
  proof (cases rule: tryCatchE)
    case (1 e s1)
    have a1: "t \<le> clock s \<longrightarrow> t \<le> clock s1 \<and> lastLlmCallAt s1 = lastLlmCallAt s \<and>
        (\<exists>new. modelCalls s1 = modelCalls s @ new \<and> (\<forall>c \<in> set new. t \<le> fst (snd c)))"
      using assms(1) 1(1) unfolding timed_def by blast
    have a2: "t \<le> clock s1 \<longrightarrow> t \<le> clock s' \<and> lastLlmCallAt s' = lastLlmCallAt s1 \<and>
        (\<exists>new. modelCalls s' = modelCalls s1 @ new \<and> (\<forall>c \<in> set new. t \<le> fst (snd c)))"
      using assms(2) [of e] 1(2) unfolding timed_def by blast
    show ?thesis using timed_compose [OF a1 a2] t by blast
  next
    case (2 x) then show ?thesis using assms(1) t unfolding timed_def by blast
  qed
qed

lemma quiet_callModelText: "quiet (callModelText env kind ctx)"
  using quiet_external [of env]
  by (auto simp: quiet_def callModelText_def split: prod.splits)

lemma timed_callModelText: "timed t (callModelText env kind ctx)"
  unfolding timed_def callModelText_def
  by (auto simp: external_def Let_def split: prod.splits option.splits)

lemma timed_broadcast: "timed t (broadcastToSidePanel m)"
  by (simp add: timed_def broadcastToSidePanel_def)

lemma timed_consoleError: "timed t (consoleError m)"
  by (simp add: timed_def consoleError_def)

lemma timed_updateNotesState: "timed t (updateNotesState env n)"
  unfolding updateNotesState_def
  by (rule timed_andThen [OF timed_external]) (simp add: timed_def)

lemma quiet_parse: "quiet (parseAndValidateNotesJson env raw ctx)"
  unfolding parseAndValidateNotesJson_def Let_def repairNotesJson_def
  by (auto intro!: quiet_andThen quiet_callModelText quiet_ret quiet_throw)

lemma timed_parse: "timed t (parseAndValidateNotesJson env raw ctx)"
  unfolding parseAndValidateNotesJson_def Let_def repairNotesJson_def
  by (auto intro!: timed_andThen timed_callModelText timed_ret timed_throw)

lemma quiet_pure: "quiet (\<lambda>s. (Inr (g s), s))" by (simp add: quiet_def)

lemma timed_pure: "timed t (\<lambda>s. (Inr (g s), s))" by (simp add: timed_def)

lemma quiet_updateNotesWithLLM: "quiet (updateNotesWithLLM env notes chunk tailContext ctx)"
  unfolding updateNotesWithLLM_def Let_def runCaptionCleaner_def runNotesMerger_def
  by (auto intro!: quiet_andThen quiet_callModelText quiet_ret quiet_parse quiet_pure)

lemma timed_updateNotesWithLLM: "timed t (updateNotesWithLLM env notes chunk tailContext ctx)"
  unfolding updateNotesWithLLM_def Let_def runCaptionCleaner_def runNotesMerger_def
  by (auto intro!: timed_andThen timed_callModelText timed_ret timed_parse timed_pure)

lemma quiet_resolve: "quiet (resolveModelForProvider env p k m)"
  by (cases p) (simp_all add: resolveModelForProvider_def quiet_external quiet_ret)

lemma timed_resolve: "timed t (resolveModelForProvider env p k m)"
  by (cases p) (simp_all add: resolveModelForProvider_def timed_external timed_ret)

lemma readOnly_getNotesState: "readOnly (getNotesState env)"
  unfolding getNotesState_def
  by (rule readOnly_andThen [OF readOnly_external]) (simp add: readOnly_def)

lemma readOnly_getAiSettings: "readOnly (getAiSettings env)"
  unfolding getAiSettings_def
  by (rule readOnly_andThen [OF readOnly_external]) (simp add: readOnly_def)

lemma tracked_Inl: "tracked m \<Longrightarrow> m s = (Inl e, s') \<Longrightarrow> thrown s' = thrown s @ [e]"
  unfolding tracked_def by fastforce

lemma tracked_Inr: "tracked m \<Longrightarrow> m s = (Inr x, s') \<Longrightarrow> thrown s' = thrown s"
  unfolding tracked_def by fastforce

lemma tracked_ret: "tracked (ret x)" by (simp add: tracked_def ret_def)

lemma tracked_throw: "tracked (throw e)" by (auto simp: tracked_def throw_def)

lemma tracked_pure: "tracked (\<lambda>s. (Inr (g s), s))" by (auto simp: tracked_def)

lemma tracked_external: "tracked (external env)"
  by (auto simp: tracked_def external_def Let_def split: option.splits)

lemma tracked_andThen:
  assumes "tracked m" and "\<And>x. tracked (f x)"
  shows "tracked (andThen m f)"
  unfolding tracked_def
proof (intro allI impI)
  fix s r s' assume a: "andThen m f s = (r, s')"
  from a show "case r of Inl e \<Rightarrow> thrown s' = thrown s @ [e] | Inr x \<Rightarrow> thrown s' = thrown s"
  proof (cases rule: andThenE)
    case (1 e) then show ?thesis using tracked_Inl [OF assms(1)] by simp
  next
    case (2 x s1)
    have a: "thrown s1 = thrown s" using tracked_Inr [OF assms(1) 2(1)] .
    show ?thesis
    proof (cases r)
      case (Inl e)
      then show ?thesis using tracked_Inl [OF assms(2) [of x], of s1 e s'] 2(2) a by simp
    next
      case (Inr y)
      then show ?thesis using tracked_Inr [OF assms(2) [of x], of s1 y s'] 2(2) a by simp
    qed
  qed
qed

lemma tracked_callModelText: "tracked (callModelText env kind ctx)"
  unfolding tracked_def callModelText_def
  by (auto simp: external_def Let_def split: prod.splits option.splits)

lemma tracked_broadcast: "tracked (broadcastToSidePanel m)"
  by (auto simp: tracked_def broadcastToSidePanel_def)

lemma tracked_consoleError: "tracked (consoleError m)"
  by (auto simp: tracked_def consoleError_def)

lemma tracked_updateNotesState: "tracked (updateNotesState env n)"
  unfolding updateNotesState_def
  by (rule tracked_andThen [OF tracked_external]) (auto simp: tracked_def)

lemma tracked_parse: "tracked (parseAndValidateNotesJson env raw ctx)"
  unfolding parseAndValidateNotesJson_def Let_def repairNotesJson_def
  by (auto intro!: tracked_andThen tracked_callModelText tracked_ret tracked_throw)

lemma tracked_updateNotesWithLLM: "tracked (updateNotesWithLLM env notes chunk tailContext ctx)"
  unfolding updateNotesWithLLM_def Let_def runCaptionCleaner_def runNotesMerger_def
  by (auto intro!: tracked_andThen tracked_callModelText tracked_ret tracked_parse tracked_pure)

lemma tracked_resolve: "tracked (resolveModelForProvider env p k m)"
  by (cases p) (simp_all add: resolveModelForProvider_def tracked_external tracked_ret)

lemma tracked_getNotesState: "tracked (getNotesState env)"
  unfolding getNotesState_def
  by (rule tracked_andThen [OF tracked_external]) (auto simp: tracked_def)

lemma tracked_getAiSettings: "tracked (getAiSettings env)"
  unfolding getAiSettings_def
  by (rule tracked_andThen [OF tracked_external]) (auto simp: tracked_def)

lemma tracked_tryUpdateNotes:
  "tracked (tryUpdateNotes env p apiKey aiSettings currentNotes chunk tailContext)"
  unfolding tryUpdateNotes_def
  by (intro tracked_andThen tracked_resolve tracked_updateNotesWithLLM tracked_updateNotesState
        tracked_broadcast)

lemma updateNotesState_outcome:
  assumes "updateNotesState env u s = (r, s')"
  shows "sidePanel s' = sidePanel s \<and>
         (isl r \<and> sessionNotes s' = sessionNotes s \<or>
          r = Inr () \<and> sessionNotes s' = notesJson (normalizeNotesState (notesJson u)))"
  using assms
  by (auto simp: updateNotesState_def andThen_def external_def Let_def split: option.splits)

lemma tryUpdateNotes_outcome:
  assumes "tryUpdateNotes env p apiKey aiSettings currentNotes chunk tailContext s = (r, s')"
  shows "isl r \<and> sessionNotes s' = sessionNotes s \<and> sidePanel s' = sidePanel s \<or>
         r = Inr () \<and>
         (\<exists>u. sidePanel s' = sidePanel s @ [NOTES_UPDATE u] \<and>
              sessionNotes s' = notesJson (normalizeNotesState (notesJson u)))"
  using assms unfolding tryUpdateNotes_def
proof (cases rule: andThenE)
  case (1 e)
  then show ?thesis using quiet_resolve [of env p apiKey "models aiSettings p"]
    by (simp add: quiet_def)
next
  case (2 m s1)
  have q1: "sessionNotes s1 = sessionNotes s \<and> sidePanel s1 = sidePanel s"
    using 2(1) quiet_resolve [of env p apiKey "models aiSettings p"] by (simp add: quiet_def)
  from 2(2) show ?thesis
  proof (cases rule: andThenE)
    case (1 e)
    then show ?thesis
      using q1 quiet_updateNotesWithLLM [of env currentNotes chunk tailContext]
      unfolding quiet_def by (metis isl_def)
  next
    case (2 u s2)
    have q2: "sessionNotes s2 = sessionNotes s \<and> sidePanel s2 = sidePanel s"
      using 2(1) q1 quiet_updateNotesWithLLM [of env currentNotes chunk tailContext]
      unfolding quiet_def by metis
    from 2(2) show ?thesis
    proof (cases rule: andThenE)
      case (1 e)
      then show ?thesis using updateNotesState_outcome [of env u s2 "Inl e" s'] q2 by auto
    next
      case (2 x s3)
      then show ?thesis using updateNotesState_outcome [of env u s2 "Inr x" s3] q2
        by (auto simp: broadcastToSidePanel_def)
    qed
  qed
qed

lemma reportUpdateFailure_outcome:
  "reportUpdateFailure p e s = (r, s') \<Longrightarrow>
   r = Inr () \<and> sessionNotes s' = sessionNotes s \<and> (\<exists>m. sidePanel s' = sidePanel s @ [ERROR m])"
  by (auto simp: reportUpdateFailure_def andThen_def consoleError_def broadcastToSidePanel_def)

lemma guarded_outcome:
  assumes "tryCatch (tryUpdateNotes env p apiKey aiSettings currentNotes chunk tailContext)
             (reportUpdateFailure p) s = (r, s')"
  shows "r = Inr () \<and>
         (sessionNotes s' = sessionNotes s \<and> (\<exists>m. sidePanel s' = sidePanel s @ [ERROR m]) \<or>
          (\<exists>u. sidePanel s' = sidePanel s @ [NOTES_UPDATE u] \<and>
               sessionNotes s' = notesJson (normalizeNotesState (notesJson u))))"
  using assms
proof (cases rule: tryCatchE)
  case (1 e s1)
  then show ?thesis
    using tryUpdateNotes_outcome [OF 1(1)] reportUpdateFailure_outcome [OF 1(2)] by auto
next
  case (2 x)
  then show ?thesis using tryUpdateNotes_outcome [OF 2(1)] by auto
qed

lemma timed_tryUpdateNotes: "timed t (tryUpdateNotes env p apiKey aiSettings currentNotes chunk tailContext)"
  unfolding tryUpdateNotes_def
  by (intro timed_andThen timed_resolve timed_updateNotesWithLLM timed_updateNotesState timed_broadcast)

lemma timed_reportUpdateFailure: "timed t (reportUpdateFailure p e)"
  unfolding reportUpdateFailure_def by (intro timed_andThen timed_consoleError timed_broadcast)

lemma timed_guarded:
  "timed t (tryCatch (tryUpdateNotes env p apiKey aiSettings currentNotes chunk tailContext)
             (reportUpdateFailure p))"
  by (intro timed_tryCatch timed_tryUpdateNotes timed_reportUpdateFailure)

lemma waitForRateLimit_outcome:
  assumes "waitForRateLimit env s = (r, s')"
  shows "r = Inr () \<and> sessionNotes s' = sessionNotes s \<and> sidePanel s' = sidePanel s \<and>
         modelCalls s' = modelCalls s \<and> lastLlmCallAt s' = clock s' \<and>
         lastLlmCallAt s + 5000 \<le> lastLlmCallAt s'"
  using assms
  by (auto simp: waitForRateLimit_def sleep_def Let_def MIN_LLM_INTERVAL_MS_def split: if_splits)

lemma handleFinalizeChunk_outcome:
  assumes "handleFinalizeChunk env chunk tailContext s = (r, s')"
  shows "(sessionNotes s' = sessionNotes s \<and>
            (sidePanel s' = sidePanel s \<or> (\<exists>m. sidePanel s' = sidePanel s @ [ERROR m])) \<or>
          r = Inr () \<and> (\<exists>u. sidePanel s' = sidePanel s @ [NOTES_UPDATE u] \<and>
               sessionNotes s' = notesJson (normalizeNotesState (notesJson u)))) \<and>
         (lastLlmCallAt s' = lastLlmCallAt s \<and> modelCalls s' = modelCalls s \<or>
          lastLlmCallAt s + 5000 \<le> lastLlmCallAt s' \<and>
          (\<exists>new. modelCalls s' = modelCalls s @ new \<and> (\<forall>c \<in> set new. lastLlmCallAt s' \<le> fst (snd c))))"
proof (cases chunk)
  case None
  then show ?thesis using assms by (simp add: handleFinalizeChunk_def ret_def)
next
  case (Some ch)
  show ?thesis
  proof (cases "chunkText ch = [] \<or> trim (chunkText ch) = []")
    case True
    then show ?thesis using assms Some by (auto simp: handleFinalizeChunk_def ret_def)
  next
    case False
    then have "andThen (getNotesState env) (\<lambda>currentNotes.
            andThen (getAiSettings env) (\<lambda>aiSettings.
              if \<not> aiNotesEnabled aiSettings then ret ()
              else
                let p = provider aiSettings;
                    apiKey = getProviderApiKey aiSettings p
                in if apiKey = []
                   then broadcastToSidePanel
                          (ERROR (js ''AI Notes enabled, but no API key saved for ''
                                  @ js (providerName p) @ js ''.''))
                   else
                     andThen (waitForRateLimit env) (\<lambda>_.
                       tryCatch
                         (tryUpdateNotes env p apiKey aiSettings currentNotes ch tailContext)
                         (reportUpdateFailure p)))) s = (r, s')"
      using assms Some by (simp add: handleFinalizeChunk_def)
    then show ?thesis
    proof (cases rule: andThenE)
      case (1 e)
      then show ?thesis using readOnly_getNotesState [of env] by (simp add: readOnly_def)
    next
      case (2 currentNotes s1)
      have r1: "sessionNotes s1 = sessionNotes s" "sidePanel s1 = sidePanel s"
        "lastLlmCallAt s1 = lastLlmCallAt s" "modelCalls s1 = modelCalls s"
        using 2(1) readOnly_getNotesState [of env] by (simp_all add: readOnly_def)
      from 2(2) show ?thesis
      proof (cases rule: andThenE)
        case (1 e)
        then show ?thesis using r1 readOnly_getAiSettings [of env] by (simp add: readOnly_def)
      next
        case (2 aiSettings s2)
        have r2: "sessionNotes s2 = sessionNotes s" "sidePanel s2 = sidePanel s"
          "lastLlmCallAt s2 = lastLlmCallAt s" "modelCalls s2 = modelCalls s"
          using 2(1) r1 readOnly_getAiSettings [of env] by (simp_all add: readOnly_def)
        show ?thesis
        proof (cases "aiNotesEnabled aiSettings")
          case False
          then show ?thesis using 2(2) r2 by (simp add: ret_def)
        next
          case True
          note enabled = True
          show ?thesis
          proof (cases "getProviderApiKey aiSettings (provider aiSettings) = []")
            case True
            then show ?thesis using 2(2) r2 enabled
              by (auto simp: Let_def broadcastToSidePanel_def)
          next
            case False
            let ?p = "provider aiSettings"
            let ?k = "getProviderApiKey aiSettings ?p"
            from False enabled 2(2)
            have "andThen (waitForRateLimit env) (\<lambda>_.
                       tryCatch
                         (tryUpdateNotes env ?p ?k aiSettings currentNotes ch tailContext)
                         (reportUpdateFailure ?p)) s2 = (r, s')"
              by (simp add: Let_def)
            then show ?thesis
            proof (cases rule: andThenE)
              case (1 e)
              then show ?thesis using waitForRateLimit_outcome [of env s2 "Inl e" s'] by simp
            next
              case (2 x s3)
              note w = waitForRateLimit_outcome [OF 2(1)]
              note g = guarded_outcome [OF 2(2)]
              have "lastLlmCallAt s3 \<le> clock s3" using w by simp
              from timed_step [OF timed_guarded 2(2) this]
              have t: "lastLlmCallAt s' = lastLlmCallAt s3"
                "\<exists>new. modelCalls s' = modelCalls s3 @ new \<and> (\<forall>c \<in> set new. lastLlmCallAt s3 \<le> fst (snd c))"
                by simp_all
              have A: "sessionNotes s' = sessionNotes s \<and>
                  (sidePanel s' = sidePanel s \<or> (\<exists>m. sidePanel s' = sidePanel s @ [ERROR m])) \<or>
                r = Inr () \<and> (\<exists>u. sidePanel s' = sidePanel s @ [NOTES_UPDATE u] \<and>
                  sessionNotes s' = notesJson (normalizeNotesState (notesJson u)))"
                using g w r2 by auto
              have B: "lastLlmCallAt s + 5000 \<le> lastLlmCallAt s' \<and>
                (\<exists>new. modelCalls s' = modelCalls s @ new \<and> (\<forall>c \<in> set new. lastLlmCallAt s' \<le> fst (snd c)))"
                using t w r2 by auto
              show ?thesis using A B by blast
            qed
          qed
        qed
      qed
    qed
  qed
qed

lemma reportUpdateFailure_exact:
  "reportUpdateFailure p e s = (r, s') \<Longrightarrow>
   r = Inr () \<and> sessionNotes s' = sessionNotes s \<and> thrown s' = thrown s \<and>
   sidePanel s' = sidePanel s @ [ERROR (js (providerName p) @ js '' notes update failed: '' @ e)]"
  by (auto simp: reportUpdateFailure_def andThen_def consoleError_def broadcastToSidePanel_def)

lemma guarded_thrown:
  assumes "tryCatch (tryUpdateNotes env p apiKey aiSettings currentNotes chunk tailContext)
             (reportUpdateFailure p) s = (r, s')"
  shows "r = Inr () \<and>
         (thrown s' = thrown s \<or>
          (\<exists>e. thrown s' = thrown s @ [e] \<and> sessionNotes s' = sessionNotes s \<and>
             sidePanel s' =
               sidePanel s @ [ERROR (js (providerName p) @ js '' notes update failed: '' @ e)]))"
  using assms
proof (cases rule: tryCatchE)
  case (1 e s1)
  have a: "thrown s1 = thrown s @ [e]" using tracked_Inl [OF tracked_tryUpdateNotes 1(1)] .
  have b: "sessionNotes s1 = sessionNotes s \<and> sidePanel s1 = sidePanel s"
    using tryUpdateNotes_outcome [OF 1(1)] by auto
  show ?thesis using reportUpdateFailure_exact [OF 1(2)] a b by simp
next
  case (2 x)
  then show ?thesis using tracked_Inr [OF tracked_tryUpdateNotes 2(1)] by simp
qed

lemma waitForRateLimit_thrown:
  "waitForRateLimit env s = (r, s') \<Longrightarrow> thrown s' = thrown s"
  by (auto simp: waitForRateLimit_def sleep_def Let_def split: if_splits)

lemma handleFinalizeChunk_thrown:
  assumes "handleFinalizeChunk env chunk tailContext s = (r, s')"
  shows "thrown s' = thrown s \<or>
         (\<exists>e. thrown s' = thrown s @ [e] \<and> sessionNotes s' = sessionNotes s \<and>
            (r = Inl e \<and> sidePanel s' = sidePanel s \<or>
             r = Inr () \<and>
             (\<exists>p. sidePanel s' =
                sidePanel s @ [ERROR (js (providerName p) @ js '' notes update failed: '' @ e)])))"
proof (cases chunk)
  case None
  then show ?thesis using assms by (simp add: handleFinalizeChunk_def ret_def)
next
  case (Some ch)
  show ?thesis
  proof (cases "chunkText ch = [] \<or> trim (chunkText ch) = []")
    case True
    then show ?thesis using assms Some by (auto simp: handleFinalizeChunk_def ret_def)
  next
    case False
    then have "andThen (getNotesState env) (\<lambda>currentNotes.
            andThen (getAiSettings env) (\<lambda>aiSettings.
              if \<not> aiNotesEnabled aiSettings then ret ()
              else
                let p = provider aiSettings;
                    apiKey = getProviderApiKey aiSettings p
                in if apiKey = []
                   then broadcastToSidePanel
                          (ERROR (js ''AI Notes enabled, but no API key saved for ''
                                  @ js (providerName p) @ js ''.''))
                   else
                     andThen (waitForRateLimit env) (\<lambda>_.
                       tryCatch
                         (tryUpdateNotes env p apiKey aiSettings currentNotes ch tailContext)
                         (reportUpdateFailure p)))) s = (r, s')"
      using assms Some by (simp add: handleFinalizeChunk_def)
    then show ?thesis
    proof (cases rule: andThenE)
      case (1 e)
      then show ?thesis
        using readOnly_getNotesState [of env] tracked_Inl [OF tracked_getNotesState 1(1)]
        by (simp add: readOnly_def)
    next
      case (2 currentNotes s1)
      have r1: "sessionNotes s1 = sessionNotes s" "sidePanel s1 = sidePanel s"
        using 2(1) readOnly_getNotesState [of env] by (simp_all add: readOnly_def)
      have t1: "thrown s1 = thrown s" using tracked_Inr [OF tracked_getNotesState 2(1)] .
      from 2(2) show ?thesis
      proof (cases rule: andThenE)
        case (1 e)
        then show ?thesis
          using r1 t1 readOnly_getAiSettings [of env] tracked_Inl [OF tracked_getAiSettings 1(1)]
          by (simp add: readOnly_def)
      next
        case (2 aiSettings s2)
        have r2: "sessionNotes s2 = sessionNotes s" "sidePanel s2 = sidePanel s"
          using 2(1) r1 readOnly_getAiSettings [of env] by (simp_all add: readOnly_def)
        have t2: "thrown s2 = thrown s" using tracked_Inr [OF tracked_getAiSettings 2(1)] t1 by simp
        show ?thesis
        proof (cases "aiNotesEnabled aiSettings")
          case False
          then show ?thesis using 2(2) t2 by (simp add: ret_def)
        next
          case True
          note enabled = True
          show ?thesis
          proof (cases "getProviderApiKey aiSettings (provider aiSettings) = []")
            case True
            then show ?thesis using 2(2) t2 enabled
              by (auto simp: Let_def broadcastToSidePanel_def)
          next
            case False
            let ?p = "provider aiSettings"
            let ?k = "getProviderApiKey aiSettings ?p"
            from False enabled 2(2)
            have "andThen (waitForRateLimit env) (\<lambda>_.
                       tryCatch
                         (tryUpdateNotes env ?p ?k aiSettings currentNotes ch tailContext)
                         (reportUpdateFailure ?p)) s2 = (r, s')"
              by (simp add: Let_def)
            then show ?thesis
            proof (cases rule: andThenE)
              case (1 e)
              then show ?thesis using waitForRateLimit_outcome [of env s2 "Inl e" s'] by simp
            next
              case (2 x s3)
              note w = waitForRateLimit_outcome [OF 2(1)]
              note wt = waitForRateLimit_thrown [OF 2(1)]
              note g = guarded_thrown [OF 2(2)]
              have s3: "sessionNotes s3 = sessionNotes s" "sidePanel s3 = sidePanel s"
                "thrown s3 = thrown s" using w wt r2 t2 by simp_all
              show ?thesis using g unfolding s3 by blast
            qed
          qed
        qed
      qed
    qed
  qed
qed

subsection \<open>Concrete runs of a chunk task\<close>

lemmas settings_eval = aiSettingsOf_def getStoredKey_def getStoredModel_def trimmedString_def
  orStr_def normalizeModelName_def isValidProvider_def DEFAULT_PROVIDER_def getProviderApiKey_def

lemmas task_eval = handleFinalizeChunk_def andThen_def tryCatch_def ret_def throw_def external_def
  sleep_def broadcastToSidePanel_def consoleError_def getNotesState_def getAiSettings_def
  updateNotesState_def waitForRateLimit_def callModelText_def runCaptionCleaner_def
  runNotesMerger_def repairNotesJson_def parseAndValidateNotesJson_def resolveModelForProvider_def
  updateNotesWithLLM_def tryUpdateNotes_def reportUpdateFailure_def MIN_LLM_INTERVAL_MS_def

lemmas tighten_eval = tightenCleanTranscript_def rawParts_def isSentenceEnd_def isDashGlyph_def
  stripDashLead_def normalizeSentence_def isFillerTail_def FILLER_REPEATS_def FILLER_PHRASES_def
  matchesRepeat_def matchesPhrase_def fillerOnly_def FILLER_TOKENS_def isFillerSentence_def

lemma tighten_cells_divide: "tightenCleanTranscript (js ''Cells divide.'') = js ''Cells divide.''"
  by (simp add: str_eval tighten_eval)

text \<open>
  Claim C8 as stated fails for the feature flag: with the flag off the task sends
  nothing to the side panel.
\<close>

theorem precondition_short_circuit_counterexample:
  "\<not> aiNotesEnabled (aiSettingsOf (selfKeys quietEnv) (localSettings freshWorker)) \<and>
   sidePanel (snd (handleFinalizeChunk quietEnv (Some osmosisChunk) [] freshWorker)) = []"
  by (simp add: quietEnv_def freshWorker_def osmosisChunk_def task_eval settings_eval js_def trim_def isWs_def
      normalizeNotesState_def Let_def)

text \<open>
  A task whose merging call fails: the cleaning call runs from 10000 to 10300 and the
  merging call of the same task from 10300 to 10400.
\<close>

lemma mergeFails_calls:
  "modelCalls (snd (handleFinalizeChunk mergeFailsEnv (Some osmosisChunk) []
      (freshWorker\<lparr>localSettings := enabledWithKey\<rparr>))) =
     [(CleanCall, 10000, 10300), (MergeCall, 10300, 10400)]"
  by (simp add: mergeFailsEnv_def quietEnv_def freshWorker_def osmosisChunk_def enabledWithKey_def
      task_eval settings_eval normalizeNotesState_def tighten_cells_divide Let_def) (simp add: str_eval)

text \<open>
  Claim C9 as stated fails: the task makes two provider calls, and the second starts
  less than 5000 ms after the first has ended.
\<close>

theorem rate_limit_per_task_counterexample:
  "length (modelCalls (snd (handleFinalizeChunk mergeFailsEnv (Some osmosisChunk) []
      (freshWorker\<lparr>localSettings := enabledWithKey\<rparr>)))) = 2 \<and>
   fst (snd (modelCalls (snd (handleFinalizeChunk mergeFailsEnv (Some osmosisChunk) []
      (freshWorker\<lparr>localSettings := enabledWithKey\<rparr>))) ! 1)) <
   snd (snd (modelCalls (snd (handleFinalizeChunk mergeFailsEnv (Some osmosisChunk) []
      (freshWorker\<lparr>localSettings := enabledWithKey\<rparr>))) ! 0)) + MIN_LLM_INTERVAL_MS"
  unfolding mergeFails_calls by (simp add: MIN_LLM_INTERVAL_MS_def)

subsection \<open>The queue and the chunk task\<close>

lemma queueLink_fst: "fst (queueLink env c t s) = fst (handleFinalizeChunk env c t s)"
  by (simp add: queueLink_def split: prod.split sum.split)

lemma runQueue_Cons:
  "runQueue env ((c, t) # rest) s =
     (fst (queueLink env c t s) # fst (runQueue env rest (snd (queueLink env c t s))),
      snd (runQueue env rest (snd (queueLink env c t s))))"
  by (simp add: case_prod_beta)

lemma runQueue_nth:
  "i < length tasks \<Longrightarrow>
   fst (runQueue env tasks s) ! i =
     fst (handleFinalizeChunk env (fst (tasks ! i)) (snd (tasks ! i))
            (snd (runQueue env (take i tasks) s)))"
proof (induction tasks arbitrary: s i)
  case Nil then show ?case by simp
next
  case (Cons t rest)
  obtain chunk tailContext where t: "t = (chunk, tailContext)" by (cases t)
  show ?case
  proof (cases i)
    case 0 then show ?thesis unfolding t runQueue_Cons by (simp add: queueLink_fst)
  next
    case (Suc j)
    then have j: "j < length rest" using Cons.prems by simp
    show ?thesis unfolding t Suc take_Suc_Cons runQueue_Cons using Cons.IH [OF j] by simp
  qed
qed

lemma runQueue_length: "length (fst (runQueue env tasks s)) = length tasks"
proof (induction tasks arbitrary: s)
  case Nil show ?case by simp
next
  case (Cons t rest)
  obtain chunk tailContext where t: "t = (chunk, tailContext)" by (cases t)
  show ?case unfolding t runQueue_Cons using Cons.IH by simp
qed

lemma queueLink_snd:
  "snd (queueLink env c t s) =
     (case handleFinalizeChunk env c t s of
        (Inl e, s1) \<Rightarrow> s1\<lparr>consoleErrors := consoleErrors s1 @ [js ''Chunk processing failed: '' @ e]\<rparr>
      | (Inr x, s1) \<Rightarrow> s1)"
  by (simp add: queueLink_def consoleError_def split: prod.split sum.split)

lemma queueLink_frame:
  "thrown (snd (queueLink env c t s)) = thrown (snd (handleFinalizeChunk env c t s)) \<and>
   sessionNotes (snd (queueLink env c t s)) = sessionNotes (snd (handleFinalizeChunk env c t s))"
  by (simp add: queueLink_def consoleError_def split: prod.split sum.split)

lemma runQueue_take_Suc:
  "i < length tasks \<Longrightarrow>
   snd (runQueue env (take (Suc i) tasks) s) =
     snd (queueLink env (fst (tasks ! i)) (snd (tasks ! i)) (snd (runQueue env (take i tasks) s)))"
proof (induction tasks arbitrary: s i)
  case Nil then show ?case by simp
next
  case (Cons t rest)
  obtain chunk tailContext where t: "t = (chunk, tailContext)" by (cases t)
  show ?case
  proof (cases i)
    case 0 then show ?thesis unfolding t by (simp add: case_prod_beta)
  next
    case (Suc j)
    then have j: "j < length rest" using Cons.prems by simp
    show ?thesis unfolding t Suc take_Suc_Cons runQueue_Cons using Cons.IH [OF j] by simp
  qed
qed

lemma handleFinalizeChunk_throws:
  assumes "thrown (snd (handleFinalizeChunk env chunk tailContext s)) \<noteq> thrown s"
  shows "\<exists>e. thrown (snd (handleFinalizeChunk env chunk tailContext s)) = thrown s @ [e] \<and>
           sessionNotes (snd (handleFinalizeChunk env chunk tailContext s)) = sessionNotes s \<and>
           (fst (handleFinalizeChunk env chunk tailContext s) = Inl e \<and>
            sidePanel (snd (handleFinalizeChunk env chunk tailContext s)) = sidePanel s \<or>
            fst (handleFinalizeChunk env chunk tailContext s) = Inr () \<and>
            (\<exists>p. sidePanel (snd (handleFinalizeChunk env chunk tailContext s)) =
               sidePanel s @ [ERROR (js (providerName p) @ js '' notes update failed: '' @ e)]))"
proof -
  obtain r s' where h: "handleFinalizeChunk env chunk tailContext s = (r, s')"
    by (cases "handleFinalizeChunk env chunk tailContext s")
  show ?thesis using handleFinalizeChunk_thrown [OF h] assms by (simp add: h)
qed

lemma handleFinalizeChunk_visible:
  assumes "isl (fst (handleFinalizeChunk env chunk tailContext s)) \<or>
     (\<exists>m. ERROR m \<in> set (drop (length (sidePanel s))
                             (sidePanel (snd (handleFinalizeChunk env chunk tailContext s)))))"
  shows "sessionNotes (snd (handleFinalizeChunk env chunk tailContext s)) = sessionNotes s"
proof -
  obtain r s' where h: "handleFinalizeChunk env chunk tailContext s = (r, s')"
    by (cases "handleFinalizeChunk env chunk tailContext s")
  from assms have f: "isl r \<or> (\<exists>m. ERROR m \<in> set (drop (length (sidePanel s)) (sidePanel s')))"
    by (simp add: h)
  from handleFinalizeChunk_outcome [OF h]
  have "sessionNotes s' = sessionNotes s \<or>
        r = Inr () \<and> (\<exists>u. sidePanel s' = sidePanel s @ [NOTES_UPDATE u])" by blast
  then have "sessionNotes s' = sessionNotes s" using f by auto
  then show ?thesis by (simp add: h)
qed

text \<open>
  Claim C2. Whenever a stage of a chunk task throws, that is, an awaited operation is
  rejected or a \<^verbatim>\<open>throw\<close> statement runs, so that the log of thrown errors grows:
  exactly one error was thrown, the stored notes are what they were before the task
  began, and the error is caught. Either it escapes the task, which then ends with this
  error and sends nothing to the side panel (the queue catches it), or the task catches
  it, ends normally and broadcasts one error message that carries the text of the error.
  Also, whenever a task ends with an error or broadcasts an error message, the
  stored notes are what they were before the task began.

  The queue runs every task, in order: it yields one result for each queued task; the
  result at each position is that of running \<^verbatim>\<open>handleFinalizeChunk\<close> for the task at this
  position on the state left by the tasks before it; the state after a task is the state
  in which \<^verbatim>\<open>handleFinalizeChunk\<close> ended, with one line added to the console when an error
  escaped the task; and a queued task in which a stage throws leaves the stored notes as
  the tasks before it left them.
\<close>

theorem chunk_task_failure_isolated:
  "(thrown (snd (handleFinalizeChunk env chunk tailContext s)) \<noteq> thrown s \<longrightarrow>
      (\<exists>e. thrown (snd (handleFinalizeChunk env chunk tailContext s)) = thrown s @ [e] \<and>
         sessionNotes (snd (handleFinalizeChunk env chunk tailContext s)) = sessionNotes s \<and>
         (fst (handleFinalizeChunk env chunk tailContext s) = Inl e \<and>
          sidePanel (snd (handleFinalizeChunk env chunk tailContext s)) = sidePanel s \<or>
          fst (handleFinalizeChunk env chunk tailContext s) = Inr () \<and>
          (\<exists>p. sidePanel (snd (handleFinalizeChunk env chunk tailContext s)) =
             sidePanel s @ [ERROR (js (providerName p) @ js '' notes update failed: '' @ e)])))) \<and>
   ((isl (fst (handleFinalizeChunk env chunk tailContext s)) \<or>
     (\<exists>m. ERROR m \<in> set (drop (length (sidePanel s))
                             (sidePanel (snd (handleFinalizeChunk env chunk tailContext s))))))
    \<longrightarrow> sessionNotes (snd (handleFinalizeChunk env chunk tailContext s)) = sessionNotes s) \<and>
   length (fst (runQueue env tasks s)) = length tasks \<and>
   (\<forall>i < length tasks.
      fst (runQueue env tasks s) ! i =
        fst (handleFinalizeChunk env (fst (tasks ! i)) (snd (tasks ! i))
               (snd (runQueue env (take i tasks) s))) \<and>
      snd (runQueue env (take (Suc i) tasks) s) =
        (case handleFinalizeChunk env (fst (tasks ! i)) (snd (tasks ! i))
                (snd (runQueue env (take i tasks) s)) of
           (Inl e, s1) \<Rightarrow>
             s1\<lparr>consoleErrors := consoleErrors s1 @ [js ''Chunk processing failed: '' @ e]\<rparr>
         | (Inr x, s1) \<Rightarrow> s1) \<and>
      (thrown (snd (runQueue env (take (Suc i) tasks) s)) \<noteq>
         thrown (snd (runQueue env (take i tasks) s)) \<longrightarrow>
       sessionNotes (snd (runQueue env (take (Suc i) tasks) s)) =
         sessionNotes (snd (runQueue env (take i tasks) s))))"
proof (intro conjI impI allI)
  assume "thrown (snd (handleFinalizeChunk env chunk tailContext s)) \<noteq> thrown s"
  then show "\<exists>e. thrown (snd (handleFinalizeChunk env chunk tailContext s)) = thrown s @ [e] \<and>
         sessionNotes (snd (handleFinalizeChunk env chunk tailContext s)) = sessionNotes s \<and>
         (fst (handleFinalizeChunk env chunk tailContext s) = Inl e \<and>
          sidePanel (snd (handleFinalizeChunk env chunk tailContext s)) = sidePanel s \<or>
          fst (handleFinalizeChunk env chunk tailContext s) = Inr () \<and>
          (\<exists>p. sidePanel (snd (handleFinalizeChunk env chunk tailContext s)) =
             sidePanel s @ [ERROR (js (providerName p) @ js '' notes update failed: '' @ e)]))"
    by (rule handleFinalizeChunk_throws)
next
  assume "isl (fst (handleFinalizeChunk env chunk tailContext s)) \<or>
     (\<exists>m. ERROR m \<in> set (drop (length (sidePanel s))
                             (sidePanel (snd (handleFinalizeChunk env chunk tailContext s)))))"
  then show "sessionNotes (snd (handleFinalizeChunk env chunk tailContext s)) = sessionNotes s"
    by (rule handleFinalizeChunk_visible)
next
  show "length (fst (runQueue env tasks s)) = length tasks" by (rule runQueue_length)
next
  fix i assume "i < length tasks"
  then show "fst (runQueue env tasks s) ! i =
        fst (handleFinalizeChunk env (fst (tasks ! i)) (snd (tasks ! i))
               (snd (runQueue env (take i tasks) s)))" by (rule runQueue_nth)
next
  fix i assume "i < length tasks"
  then show "snd (runQueue env (take (Suc i) tasks) s) =
        (case handleFinalizeChunk env (fst (tasks ! i)) (snd (tasks ! i))
                (snd (runQueue env (take i tasks) s)) of
           (Inl e, s1) \<Rightarrow>
             s1\<lparr>consoleErrors := consoleErrors s1 @ [js ''Chunk processing failed: '' @ e]\<rparr>
         | (Inr x, s1) \<Rightarrow> s1)"
    by (simp only: runQueue_take_Suc queueLink_snd)
next
  fix i assume i: "i < length tasks"
  let ?s = "snd (runQueue env (take i tasks) s)"
  assume "thrown (snd (runQueue env (take (Suc i) tasks) s)) \<noteq> thrown ?s"
  then have "thrown (snd (handleFinalizeChunk env (fst (tasks ! i)) (snd (tasks ! i)) ?s)) \<noteq> thrown ?s"
    by (simp add: runQueue_take_Suc [OF i] queueLink_frame)
  from handleFinalizeChunk_throws [OF this]
  have "sessionNotes (snd (handleFinalizeChunk env (fst (tasks ! i)) (snd (tasks ! i)) ?s)) =
          sessionNotes ?s" by blast
  then show "sessionNotes (snd (runQueue env (take (Suc i) tasks) s)) = sessionNotes ?s"
    by (simp add: runQueue_take_Suc [OF i] queueLink_frame)
qed

lemma trim_Nil: "trim [] = []" by (simp add: trim_def)

lemma early_steps:
  assumes "trim (chunkText chunk) \<noteq> []"
    and "failure env (opCount s) = None" and "failure env (Suc (opCount s)) = None"
  shows "\<exists>s2. handleFinalizeChunk env (Some chunk) tailContext s =
           (let aiSettings = aiSettingsOf (selfKeys env) (localSettings s)
            in if \<not> aiNotesEnabled aiSettings then ret ()
               else
                let p = provider aiSettings;
                    apiKey = getProviderApiKey aiSettings p
                in if apiKey = []
                   then broadcastToSidePanel
                          (ERROR (js ''AI Notes enabled, but no API key saved for ''
                                  @ js (providerName p) @ js ''.''))
                   else
                     andThen (waitForRateLimit env) (\<lambda>_.
                       tryCatch
                         (tryUpdateNotes env p apiKey aiSettings
                            (normalizeNotesState (sessionNotes s)) chunk tailContext)
                         (reportUpdateFailure p))) s2 \<and>
         sessionNotes s2 = sessionNotes s \<and> sidePanel s2 = sidePanel s \<and>
         modelCalls s2 = modelCalls s \<and> lastLlmCallAt s2 = lastLlmCallAt s"
proof -
  have ne: "chunkText chunk \<noteq> []" using assms(1) trim_Nil by auto
  let ?s2 = "s\<lparr>clock := clock s + int (elapsed env (opCount s)) + int (elapsed env (Suc (opCount s))),
               opCount := Suc (Suc (opCount s))\<rparr>"
  show ?thesis
    by (rule exI [of _ ?s2])
       (simp add: handleFinalizeChunk_def assms ne andThen_def getNotesState_def getAiSettings_def
          external_def Let_def)
qed

text \<open>
  Claim C8 (amended). For a chunk with text, when both reads of the storage succeed: if
  the AI feature flag is off, the task ends at once, with no provider call, no change of
  the stored notes or of the rate-limit stamp, and with no message to the side panel; if
  the flag is on and no key is stored for the active provider, the task ends in the same
  way except that it broadcasts one error message that names the provider.
\<close>

theorem precondition_short_circuit:
  assumes "trim (chunkText chunk) \<noteq> []"
    and "failure env (opCount s) = None" and "failure env (Suc (opCount s)) = None"
  shows
   "(\<not> aiNotesEnabled (aiSettingsOf (selfKeys env) (localSettings s)) \<longrightarrow>
       fst (handleFinalizeChunk env (Some chunk) tailContext s) = Inr () \<and>
       sessionNotes (snd (handleFinalizeChunk env (Some chunk) tailContext s)) = sessionNotes s \<and>
       modelCalls (snd (handleFinalizeChunk env (Some chunk) tailContext s)) = modelCalls s \<and>
       lastLlmCallAt (snd (handleFinalizeChunk env (Some chunk) tailContext s)) = lastLlmCallAt s \<and>
       sidePanel (snd (handleFinalizeChunk env (Some chunk) tailContext s)) = sidePanel s) \<and>
    (aiNotesEnabled (aiSettingsOf (selfKeys env) (localSettings s)) \<and>
     getProviderApiKey (aiSettingsOf (selfKeys env) (localSettings s))
       (provider (aiSettingsOf (selfKeys env) (localSettings s))) = [] \<longrightarrow>
       fst (handleFinalizeChunk env (Some chunk) tailContext s) = Inr () \<and>
       sessionNotes (snd (handleFinalizeChunk env (Some chunk) tailContext s)) = sessionNotes s \<and>
       modelCalls (snd (handleFinalizeChunk env (Some chunk) tailContext s)) = modelCalls s \<and>
       lastLlmCallAt (snd (handleFinalizeChunk env (Some chunk) tailContext s)) = lastLlmCallAt s \<and>
       sidePanel (snd (handleFinalizeChunk env (Some chunk) tailContext s)) =
         sidePanel s @
           [ERROR (js ''AI Notes enabled, but no API key saved for ''
                   @ js (providerName (provider (aiSettingsOf (selfKeys env) (localSettings s))))
                   @ js ''.'')])"
proof -
  from early_steps [OF assms, of tailContext] obtain s2 where
    h: "handleFinalizeChunk env (Some chunk) tailContext s =
           (let aiSettings = aiSettingsOf (selfKeys env) (localSettings s)
            in if \<not> aiNotesEnabled aiSettings then ret ()
               else
                let p = provider aiSettings;
                    apiKey = getProviderApiKey aiSettings p
                in if apiKey = []
                   then broadcastToSidePanel
                          (ERROR (js ''AI Notes enabled, but no API key saved for ''
                                  @ js (providerName p) @ js ''.''))
                   else
                     andThen (waitForRateLimit env) (\<lambda>_.
                       tryCatch
                         (tryUpdateNotes env p apiKey aiSettings
                            (normalizeNotesState (sessionNotes s)) chunk tailContext)
                         (reportUpdateFailure p))) s2"
    and f: "sessionNotes s2 = sessionNotes s" "sidePanel s2 = sidePanel s"
         "modelCalls s2 = modelCalls s" "lastLlmCallAt s2 = lastLlmCallAt s" by blast
  show ?thesis unfolding h using f by (simp add: Let_def ret_def broadcastToSidePanel_def)
qed

text \<open>
  Claim C9 (amended). The rate limit is applied once for each chunk task, before its
  first provider call. A task either makes no provider call and leaves the time stamp
  alone, or it sets the time stamp to the moment its waiting ended, at least 5000 ms
  after the previous time stamp, and starts each of its provider calls at or after that
  moment. The calls of one task are not spaced from each other, and the interval counts
  from the time stamp of the earlier task, not from the end of its calls.
\<close>

theorem rate_limit_per_task:
  "(lastLlmCallAt (snd (handleFinalizeChunk env chunk tailContext s)) = lastLlmCallAt s \<and>
    modelCalls (snd (handleFinalizeChunk env chunk tailContext s)) = modelCalls s) \<or>
   (lastLlmCallAt s + 5000 \<le> lastLlmCallAt (snd (handleFinalizeChunk env chunk tailContext s)) \<and>
    (\<exists>new. modelCalls (snd (handleFinalizeChunk env chunk tailContext s)) = modelCalls s @ new \<and>
       (\<forall>c \<in> set new.
          lastLlmCallAt (snd (handleFinalizeChunk env chunk tailContext s)) \<le> fst (snd c))))"
proof -
  obtain r s' where h: "handleFinalizeChunk env chunk tailContext s = (r, s')"
    by (cases "handleFinalizeChunk env chunk tailContext s")
  show ?thesis using handleFinalizeChunk_outcome [OF h] by (simp add: h)
qed

subsection \<open>The claims at concrete inputs\<close>

text \<open>
  The amended claim C5 at two bullets of similarity 5/6, and at two bullets that share
  no word.
\<close>

theorem isNearDuplicateText_threshold_witness:
  "isNearDuplicateText (js ''Diffusion moves molecules down the concentration gradient'')
     (js ''Diffusion moves molecules along the concentration gradient'') \<and>
   \<not> isNearDuplicateText (js ''alpha beta gamma'') (js ''delta epsilon zeta'')"
proof -
  have 1: "tokenSetSimilarity (semanticTextKey (js ''Diffusion moves molecules down the concentration gradient''))
     (semanticTextKey (js ''Diffusion moves molecules along the concentration gradient'')) \<ge> 82 / 100"
    by (simp add: str_eval semanticTextKey_def STOPWORDS_def tokenSetSimilarity_def)
  have 2: "tokenSetSimilarity (semanticTextKey (js ''alpha beta gamma'')) (semanticTextKey (js ''delta epsilon zeta'')) < 82 / 100 \<and>
    \<not> includesStr (semanticTextKey (js ''alpha beta gamma'')) (semanticTextKey (js ''delta epsilon zeta'')) \<and>
    \<not> includesStr (semanticTextKey (js ''delta epsilon zeta'')) (semanticTextKey (js ''alpha beta gamma''))"
    by (simp add: str_eval semanticTextKey_def STOPWORDS_def tokenSetSimilarity_def)
  show ?thesis
    using 1 2 isNearDuplicateText_threshold [of "js ''Diffusion moves molecules down the concentration gradient''"
        "js ''Diffusion moves molecules along the concentration gradient''"]
      isNearDuplicateText_threshold [of "js ''alpha beta gamma''" "js ''delta epsilon zeta''"]
    by blast
qed

lemma normalize_JNull: "normalizeNotesState JNull = defaultNotesState"
  by (simp add: normalizeNotesState_def)

lemma enforce_plainNotes: "sections (enforceCumulativeQuality plainNotes JNull) = [cellsSection]"
  by (simp add: normalize_plainNotes normalize_JNull cellsSection_def enforceCumulativeQuality_def mergedSections_def
      capSection_def sliceLast_def dedupeBullets_def defaultNotesState_def
      MAX_SECTIONS_def MAX_BULLETS_PER_SECTION_def str_eval sanitize_eval)

text \<open>
  Claim C3 at a previous document with one section and no candidate.
\<close>

theorem enforceCumulativeQuality_caps_witness:
  "cellsSection \<in> set (sections (enforceCumulativeQuality plainNotes JNull)) \<and>
   length (bullets cellsSection) \<le> 80 \<and>
   (\<exists>m \<in> set (mergedSections plainNotes JNull).
      heading cellsSection = sanitizeHeading (JStr (heading m)) \<and>
      bullets cellsSection = drop (length (dedupeBullets (bullets m)) - 80) (dedupeBullets (bullets m)))"
proof -
  have m: "cellsSection \<in> set (sections (enforceCumulativeQuality plainNotes JNull))" by (simp add: enforce_plainNotes)
  show ?thesis using m enforceCumulativeQuality_caps [of plainNotes JNull] by blast
qed

text \<open>
  Claim C4 as stated fails: a previous document with the section \<^verbatim>\<open>Cell Biology\<close> and
  no bullet keeps that section when normalized, and the merge drops it.
\<close>

theorem enforceCumulativeQuality_keeps_sections_counterexample:
  "js ''Cell Biology'' \<in> set (map heading (sections (normalizeNotesState emptySectionNotes))) \<and>
   js ''Cell Biology'' \<notin> set (map heading (sections (enforceCumulativeQuality emptySectionNotes JNull)))"
  by (simp add: emptySectionNotes_def enforceCumulativeQuality_def mergedSections_def capSection_def
      sliceLast_def dedupeBullets_def MAX_BULLETS_PER_SECTION_def str_eval sanitize_eval norm_eval)

text \<open>
  The amended claim C4 at a previous section with one clean bullet and a candidate that
  extends the same section.
\<close>

theorem enforceCumulativeQuality_keeps_sections_witness:
  "cellsSection \<in> set (sections (normalizeNotesState plainNotes)) \<and>
   bullets cellsSection \<noteq> [] \<and>
   sanitizeBullet (JStr (hd (bullets cellsSection))) = hd (bullets cellsSection) \<and>
   heading cellsSection \<in> set (map heading (sections (enforceCumulativeQuality plainNotes nucleusCandidate)))"
proof -
  have 1: "cellsSection \<in> set (sections (normalizeNotesState plainNotes))"
    by (simp add: normalize_plainNotes cellsSection_def)
  have 2: "bullets cellsSection \<noteq> []" by (simp add: cellsSection_def)
  have 3: "sanitizeBullet (JStr (hd (bullets cellsSection))) = hd (bullets cellsSection)"
    by (simp add: cellsSection_def str_eval sanitize_eval)
  show ?thesis using 1 2 3 enforceCumulativeQuality_keeps_sections [OF 1 2 3, of nucleusCandidate] by simp
qed

lemmas content_eval = handleCaptionChange_def normalizeText_def getVideoTime_def
  appendTranscriptEntry_def appendChunkPart_def replaceLastChunkPart_def updateLastEntry_def
  maybeFinalizeChunk_def finalizeChunk_def sendTranscriptUpdate_def getTailContext_def snapshot_def
  CHUNK_SECONDS_def CHUNK_MAX_CHARS_def sliceLast_def

lemma normalizeText_first: "normalizeText (js ''the cell membrane is'') = js ''the cell membrane is''"
  by (simp add: normalizeText_def str_eval)

lemma normalizeText_grown: "normalizeText (js ''the cell membrane is semi-permeable'') = js ''the cell membrane is semi-permeable''"
  by (simp add: normalizeText_def str_eval)

lemma first_step:
  "transcriptBuffer (handleCaptionChange firstCaption capturingIdle) =
     [\<lparr>entryText = js ''the cell membrane is'', startTime = 12, endTime = 12, entryTStart = 12,
       entryTEnd = 12, timestamp = 1000\<rparr>] \<and>
   isCapturing (handleCaptionChange firstCaption capturingIdle) \<and>
   captionElement (handleCaptionChange firstCaption capturingIdle)"
  by (simp add: handleCaptionChange_def firstCaption_def capturingIdle_def normalizeText_first Let_def playing_def
      getVideoTime_def appendTranscriptEntry_def appendChunkPart_def maybeFinalizeChunk_def
      sendTranscriptUpdate_def CHUNK_SECONDS_def CHUNK_MAX_CHARS_def) (simp add: js_def)

text \<open>
  Claim C6 in the scenario of the specification: the caption \<^verbatim>\<open>the cell membrane is\<close>
  followed by \<^verbatim>\<open>the cell membrane is semi-permeable\<close> leaves one transcript entry, with
  the longer text.
\<close>

theorem prefix_growth_replaces_in_place_witness:
  "map entryText (transcriptBuffer (handleCaptionChange grownCaption
      (handleCaptionChange firstCaption capturingIdle))) = [js ''the cell membrane is semi-permeable'']"
proof -
  let ?st = "handleCaptionChange firstCaption capturingIdle"
  have t: "normalizeText (textContent grownCaption) = js ''the cell membrane is semi-permeable''"
    by (simp add: grownCaption_def normalizeText_grown)
  have 1: "isCapturing ?st" and 2: "captionElement ?st" using first_step by simp_all
  have 3: "normalizeText (textContent grownCaption) \<noteq> []" unfolding t by (simp add: js_def)
  have 4: "transcriptBuffer ?st \<noteq> []" using first_step by simp
  have 5: "entryText (last (transcriptBuffer ?st)) \<noteq> normalizeText (textContent grownCaption)"
    unfolding t using first_step by (simp add: js_def)
  have 6: "startsWith (normalizeText (textContent grownCaption)) (entryText (last (transcriptBuffer ?st)))"
    unfolding t using first_step by (simp add: js_def startsWith_def)
  from prefix_growth_replaces_in_place [OF 1 2 3 4 5 6]
  have "transcriptBuffer (handleCaptionChange grownCaption ?st) =
           butlast (transcriptBuffer ?st) @
             [(last (transcriptBuffer ?st))
                \<lparr>entryText := normalizeText (textContent grownCaption), endTime := getVideoTime grownCaption,
                 entryTEnd := getVideoTime grownCaption, timestamp := now grownCaption\<rparr>]"
    by blast
  then show ?thesis using first_step t by simp
qed

text \<open>
  Claim C10 at a state whose chunk was finalized after the caption \<^verbatim>\<open>the cell membrane is\<close>.
\<close>

theorem prefix_growth_without_chunk_witness:
  "currentChunk (handleCaptionChange grownCaption afterFinalize) = None \<and>
   filter isFinalizeMessage (sent (handleCaptionChange grownCaption afterFinalize)) = [] \<and>
   entryText (last (transcriptBuffer (handleCaptionChange grownCaption afterFinalize))) =
     js ''the cell membrane is semi-permeable''"
proof -
  have t: "normalizeText (textContent grownCaption) = js ''the cell membrane is semi-permeable''"
    by (simp add: grownCaption_def normalizeText_grown)
  have 1: "isCapturing afterFinalize" and 2: "captionElement afterFinalize"
    and 4: "transcriptBuffer afterFinalize \<noteq> []" and 6: "currentChunk afterFinalize = None"
    by (simp_all add: afterFinalize_def)
  have 3: "normalizeText (textContent grownCaption) \<noteq> []" unfolding t by (simp add: js_def)
  have 5: "startsWith (normalizeText (textContent grownCaption)) (entryText (last (transcriptBuffer afterFinalize)))"
    unfolding t by (simp add: afterFinalize_def js_def startsWith_def)
  have s: "sent afterFinalize = []" by (simp add: afterFinalize_def)
  show ?thesis using prefix_growth_without_chunk [OF 1 2 3 4 5 6] t s by simp
qed

text \<open>
  Claim C7 as stated fails: with a chunk in progress whose text is \<^verbatim>\<open>osmosis moves water\<close>,
  the clear-session handler sends no finalize message.
\<close>

theorem clear_session_discards_chunk_counterexample:
  "currentChunk openChunkState = Some openChunk \<and> trim (chunkText openChunk) \<noteq> [] \<and>
   filter isFinalizeMessage (sent (onClearSession openChunkState)) = []"
  by (simp add: openChunkState_def openChunk_def onClearSession_def isFinalizeMessage_def str_eval)

text \<open>
  The pause handler, on the same state, does send the finalize message.
\<close>

lemma pause_contrast:
  "filter isFinalizeMessage (sent (onPauseCapture firstCaption openChunkState)) \<noteq> []"
  by (simp add: openChunkState_def openChunk_def onPauseCapture_def finalizeChunk_def
      isFinalizeMessage_def str_eval)

lemma mergeFails_run:
  "sidePanel (snd (handleFinalizeChunk mergeFailsEnv (Some osmosisChunk) [] keyedWorker)) =
     [ERROR (js ''gemini notes update failed: HTTP 500'')]"
  by (simp add: keyedWorker_def mergeFailsEnv_def quietEnv_def freshWorker_def osmosisChunk_def
      enabledWithKey_def task_eval settings_eval normalizeNotesState_def tighten_cells_divide Let_def)
     (simp add: str_eval)

lemma mergeFails_thrown:
  "thrown (snd (handleFinalizeChunk mergeFailsEnv (Some osmosisChunk) [] keyedWorker)) =
     [js ''HTTP 500'']"
  by (simp add: keyedWorker_def mergeFailsEnv_def quietEnv_def freshWorker_def osmosisChunk_def
      enabledWithKey_def task_eval settings_eval normalizeNotesState_def tighten_cells_divide Let_def)
     (simp add: str_eval)

text \<open>
  Claim C2 at a task whose merging call is rejected with \<^verbatim>\<open>HTTP 500\<close>, queued twice: the
  error is entered in the log of thrown errors, the task ends normally and broadcasts the
  error message, the stored notes are untouched, the queue goes on from the state in
  which the task ended, and the second task is run on that state.
\<close>

theorem chunk_task_failure_isolated_witness:
  "thrown (snd (handleFinalizeChunk mergeFailsEnv (Some osmosisChunk) [] keyedWorker)) =
     thrown keyedWorker @ [js ''HTTP 500''] \<and>
   fst (handleFinalizeChunk mergeFailsEnv (Some osmosisChunk) [] keyedWorker) = Inr () \<and>
   sidePanel (snd (handleFinalizeChunk mergeFailsEnv (Some osmosisChunk) [] keyedWorker)) =
     sidePanel keyedWorker @ [ERROR (js ''gemini notes update failed: HTTP 500'')] \<and>
   sessionNotes (snd (handleFinalizeChunk mergeFailsEnv (Some osmosisChunk) [] keyedWorker)) =
     sessionNotes keyedWorker \<and>
   length (fst (runQueue mergeFailsEnv twoTasks keyedWorker)) = 2 \<and>
   snd (runQueue mergeFailsEnv (take 1 twoTasks) keyedWorker) =
     snd (handleFinalizeChunk mergeFailsEnv (Some osmosisChunk) [] keyedWorker) \<and>
   sessionNotes (snd (runQueue mergeFailsEnv (take 1 twoTasks) keyedWorker)) =
     sessionNotes keyedWorker \<and>
   fst (runQueue mergeFailsEnv twoTasks keyedWorker) ! 1 =
     fst (handleFinalizeChunk mergeFailsEnv (Some osmosisChunk) []
            (snd (handleFinalizeChunk mergeFailsEnv (Some osmosisChunk) [] keyedWorker)))"
proof -
  obtain r s' where h: "handleFinalizeChunk mergeFailsEnv (Some osmosisChunk) [] keyedWorker = (r, s')"
    by (cases "handleFinalizeChunk mergeFailsEnv (Some osmosisChunk) [] keyedWorker")
  have k: "thrown keyedWorker = []" "sidePanel keyedWorker = []"
    by (simp_all add: keyedWorker_def freshWorker_def)
  have t: "thrown s' = [js ''HTTP 500'']" using mergeFails_thrown by (simp add: h)
  have p: "sidePanel s' = [ERROR (js ''gemini notes update failed: HTTP 500'')]"
    using mergeFails_run by (simp add: h)
  have l: "(0::nat) < length twoTasks" "(1::nat) < length twoTasks" "length twoTasks = 2"
    "twoTasks ! 0 = (Some osmosisChunk, [])" "twoTasks ! 1 = (Some osmosisChunk, [])"
    "take 0 twoTasks = []"
    by (simp_all add: twoTasks_def)
  note c = chunk_task_failure_isolated [of mergeFailsEnv "Some osmosisChunk" "[]" keyedWorker twoTasks]
  have throws: "thrown s' \<noteq> thrown keyedWorker" using t k by simp
  from c throws have 1: "sessionNotes s' = sessionNotes keyedWorker" "r = Inr ()"
    using p k by (auto simp: h)
  from c l(1) have "snd (runQueue mergeFailsEnv (take (Suc 0) twoTasks) keyedWorker) =
        (case handleFinalizeChunk mergeFailsEnv (fst (twoTasks ! 0)) (snd (twoTasks ! 0))
                (snd (runQueue mergeFailsEnv (take 0 twoTasks) keyedWorker)) of
           (Inl e, s1) \<Rightarrow>
             s1\<lparr>consoleErrors := consoleErrors s1 @ [js ''Chunk processing failed: '' @ e]\<rparr>
         | (Inr x, s1) \<Rightarrow> s1)" by blast
  then have 2: "snd (runQueue mergeFailsEnv (take 1 twoTasks) keyedWorker) = s'"
    using l 1 by (simp add: h)
  from c l(2) have 3: "fst (runQueue mergeFailsEnv twoTasks keyedWorker) ! 1 =
        fst (handleFinalizeChunk mergeFailsEnv (fst (twoTasks ! 1)) (snd (twoTasks ! 1))
               (snd (runQueue mergeFailsEnv (take 1 twoTasks) keyedWorker)))" by blast
  from c have 4: "length (fst (runQueue mergeFailsEnv twoTasks keyedWorker)) = length twoTasks"
    by blast
  show ?thesis using t p k 1 2 3 4 l by (simp add: h)
qed

text \<open>
  The amended claim C8 with the flag off, and with the flag on and no key.
\<close>

theorem precondition_short_circuit_witness:
  "sidePanel (snd (handleFinalizeChunk quietEnv (Some osmosisChunk) [] freshWorker)) = [] \<and>
   sidePanel (snd (handleFinalizeChunk quietEnv (Some osmosisChunk) []
      (freshWorker\<lparr>localSettings := enabledNoKey\<rparr>))) =
     [ERROR (js ''AI Notes enabled, but no API key saved for gemini.'')]"
proof -
  have t: "trim (chunkText osmosisChunk) \<noteq> []" by (simp add: osmosisChunk_def str_eval)
  have f: "failure quietEnv k = None" for k by (simp add: quietEnv_def)
  have off: "\<not> aiNotesEnabled (aiSettingsOf (selfKeys quietEnv) (localSettings freshWorker))"
    by (simp add: quietEnv_def freshWorker_def settings_eval Let_def)
  let ?w = "freshWorker\<lparr>localSettings := enabledNoKey\<rparr>"
  have on: "aiNotesEnabled (aiSettingsOf (selfKeys quietEnv) (localSettings ?w))"
    by (simp add: quietEnv_def enabledNoKey_def settings_eval Let_def js_def)
  have p: "provider (aiSettingsOf (selfKeys quietEnv) (localSettings ?w)) = GEMINI"
    by (simp add: quietEnv_def enabledNoKey_def settings_eval Let_def js_def)
  have nokey: "getProviderApiKey (aiSettingsOf (selfKeys quietEnv) (localSettings ?w))
       (provider (aiSettingsOf (selfKeys quietEnv) (localSettings ?w))) = []"
    unfolding p by (simp add: quietEnv_def enabledNoKey_def settings_eval Let_def js_def trim_def)
  have 1: "sidePanel (snd (handleFinalizeChunk quietEnv (Some osmosisChunk) [] freshWorker)) = []"
    using precondition_short_circuit [OF t f f, of freshWorker "[]"] off
    by (simp add: freshWorker_def)
  have 2: "sidePanel (snd (handleFinalizeChunk quietEnv (Some osmosisChunk) [] ?w)) =
     [ERROR (js ''AI Notes enabled, but no API key saved for gemini.'')]"
    using precondition_short_circuit [OF t f f, of ?w "[]"] on nokey p
    by (simp add: freshWorker_def js_def)
  show ?thesis using 1 2 by simp
qed

lemma cleanFails_calls:
  "modelCalls (snd (handleFinalizeChunk cleanFailsEnv (Some osmosisChunk) [] waitingWorker)) =
     [(CleanCall, 13000, 13250)]"
  by (simp add: waitingWorker_def cleanFailsEnv_def quietEnv_def freshWorker_def osmosisChunk_def
      enabledWithKey_def task_eval settings_eval normalizeNotesState_def Let_def)
     (simp add: str_eval)

text \<open>
  The amended claim C9 at a task that starts 2000 ms after the previous time stamp: it
  waits, and its provider call starts at the new time stamp, 5000 ms after the old one.
\<close>

theorem rate_limit_per_task_witness:
  "lastLlmCallAt waitingWorker + 5000 \<le>
     lastLlmCallAt (snd (handleFinalizeChunk cleanFailsEnv (Some osmosisChunk) [] waitingWorker)) \<and>
   list_all (\<lambda>c. lastLlmCallAt (snd (handleFinalizeChunk cleanFailsEnv (Some osmosisChunk) [] waitingWorker))
                   \<le> fst (snd c))
     (modelCalls (snd (handleFinalizeChunk cleanFailsEnv (Some osmosisChunk) [] waitingWorker))) \<and>
   modelCalls (snd (handleFinalizeChunk cleanFailsEnv (Some osmosisChunk) [] waitingWorker)) =
     [(CleanCall, 13000, 13250)]"
proof -
  have m: "modelCalls waitingWorker = []" by (simp add: waitingWorker_def freshWorker_def)
  have "modelCalls (snd (handleFinalizeChunk cleanFailsEnv (Some osmosisChunk) [] waitingWorker))
        \<noteq> modelCalls waitingWorker"
    unfolding cleanFails_calls m by simp
  then have "lastLlmCallAt waitingWorker + 5000 \<le>
     lastLlmCallAt (snd (handleFinalizeChunk cleanFailsEnv (Some osmosisChunk) [] waitingWorker)) \<and>
   (\<forall>c \<in> set (modelCalls (snd (handleFinalizeChunk cleanFailsEnv (Some osmosisChunk) [] waitingWorker))).
      lastLlmCallAt (snd (handleFinalizeChunk cleanFailsEnv (Some osmosisChunk) [] waitingWorker))
        \<le> fst (snd c))"
    using rate_limit_per_task [of cleanFailsEnv "Some osmosisChunk" "[]" waitingWorker] m by auto
  then show ?thesis using cleanFails_calls by (simp add: list_all_iff)
qed

end
